theory Spec2Isabelle
  imports Main "HOL-Library.Char_ord" "HOL-Library.List_Lexorder" "HOL-Library.Multiset"
begin

section \<open>JavaScript values and JSON payloads\<close>

text \<open>
  The store (packages/opencode/src/storage/sqlite.ts, namespace StorageSqlite) keeps every
  payload as JSON text: a write binds \<^verbatim>\<open>JSON.stringify(payload)\<close> to the \<^verbatim>\<open>data\<close>
  column and a read returns \<^verbatim>\<open>JSON.parse(row.data)\<close>. Payloads are JSON documents, on
  which \<^verbatim>\<open>JSON.parse\<close> undoes \<^verbatim>\<open>JSON.stringify\<close>, so a \<^verbatim>\<open>data\<close> column is modelled
  as holding the JSON value itself. Numbers are the integers (timestamps and counters).
  An object is the list of its properties, read with \<open>map_of\<close>.
\<close>

datatype json =
  JNull
| JBool bool
| JNum int
| JStr string
| JArr "json list"
| JObj "(string \<times> json) list"

text \<open>\<^verbatim>\<open>o.k\<close>: \<open>None\<close> is JavaScript's \<^verbatim>\<open>undefined\<close>.\<close>

fun js_prop :: "json \<Rightarrow> string \<Rightarrow> json option" where
  "js_prop (JObj kvs) k = map_of kvs k"
| "js_prop _ k = None"

text \<open>\<^verbatim>\<open>o?.k\<close> on a value that may be \<^verbatim>\<open>undefined\<close> or \<^verbatim>\<open>null\<close>.\<close>

fun opt_prop :: "json option \<Rightarrow> string \<Rightarrow> json option" where
  "opt_prop None k = None"
| "opt_prop (Some JNull) k = None"
| "opt_prop (Some v) k = js_prop v k"

text \<open>Truthiness, as tested by \<^verbatim>\<open>if (x)\<close>, \<^verbatim>\<open>!x\<close> and \<^verbatim>\<open>x ? a : b\<close>.\<close>

fun truthy :: "json option \<Rightarrow> bool" where
  "truthy None = False"
| "truthy (Some JNull) = False"
| "truthy (Some (JBool b)) = b"
| "truthy (Some (JNum n)) = (n \<noteq> 0)"
| "truthy (Some (JStr s)) = (s \<noteq> [])"
| "truthy (Some (JArr xs)) = True"
| "truthy (Some (JObj kvs)) = True"

text \<open>\<^verbatim>\<open>typeof x === "string" ? x : d\<close>.\<close>

fun string_or :: "json option \<Rightarrow> string \<Rightarrow> string" where
  "string_or (Some (JStr s)) d = s"
| "string_or _ d = d"

text \<open>
  Properties that the TypeScript types declare: \<^verbatim>\<open>id: string\<close>, \<^verbatim>\<open>parentID?: string\<close>,
  \<^verbatim>\<open>created?: number\<close>. The code binds them without a check. A value outside the
  declared type is not an input of the typed interface; the model reads such a value as
  \<^verbatim>\<open>""\<close> for a required string and as \<^verbatim>\<open>null\<close> for an optional one. The predicates
  \<open>is_SessionRecord\<close>, \<open>is_MessageRecord\<close> and \<open>is_PartRecord\<close> below say that a payload
  has the declared type.
\<close>

definition str_prop :: "json \<Rightarrow> string \<Rightarrow> string" where
  "str_prop v k = string_or (js_prop v k) []"

text \<open>\<^verbatim>\<open>x ?? null\<close> for \<^verbatim>\<open>x?: string\<close>.\<close>

fun string_or_null :: "json option \<Rightarrow> string option" where
  "string_or_null (Some (JStr s)) = Some s"
| "string_or_null _ = None"

text \<open>\<^verbatim>\<open>x ?? null\<close> for \<^verbatim>\<open>x?: number\<close>.\<close>

fun number_or_null :: "json option \<Rightarrow> int option" where
  "number_or_null (Some (JNum n)) = Some n"
| "number_or_null _ = None"

text \<open>\<^verbatim>\<open>x ?? 0\<close> for \<^verbatim>\<open>x?: number\<close>.\<close>

definition number_or_zero :: "json option \<Rightarrow> int" where
  "number_or_zero v = (case number_or_null v of None \<Rightarrow> 0 | Some n \<Rightarrow> n)"

fun is_string :: "json option \<Rightarrow> bool" where
  "is_string (Some (JStr s)) = True"
| "is_string _ = False"

fun is_object :: "json option \<Rightarrow> bool" where
  "is_object (Some (JObj kvs)) = True"
| "is_object _ = False"

definition is_SessionRecord :: "json \<Rightarrow> bool" where
  "is_SessionRecord v \<longleftrightarrow>
     is_object (Some v) \<and> is_string (js_prop v ''id'') \<and> is_string (js_prop v ''projectID'')"

definition is_MessageRecord :: "json \<Rightarrow> bool" where
  "is_MessageRecord v \<longleftrightarrow>
     is_object (Some v) \<and> is_object (js_prop v ''info'') \<and>
     is_string (opt_prop (js_prop v ''info'') ''id'') \<and>
     is_string (opt_prop (js_prop v ''info'') ''sessionID'')"

definition is_PartRecord :: "json \<Rightarrow> bool" where
  "is_PartRecord v \<longleftrightarrow> is_object (Some v) \<and> is_string (js_prop v ''id'')"

section \<open>Tables\<close>

text \<open>
  The schema (constant \<^verbatim>\<open>SCHEMA\<close>). A table is the list of its rows in insertion order;
  a nullable column is an \<open>option\<close>.
\<close>

record sessions_row =
  ses_id :: string
  ses_projectID :: string
  ses_parentID :: "string option"
  ses_created_at :: "int option"
  ses_updated_at :: "int option"
  ses_data :: json

record SessionIndexRecord =
  idx_id :: string
  idx_projectID :: string
  idx_parentID :: "string option"
  idx_title :: string
  idx_directory :: string
  idx_version :: "string option"
  idx_created_at :: "int option"
  idx_updated_at :: "int option"
  idx_archived_at :: "int option"
  idx_additions :: int
  idx_deletions :: int
  idx_files_changed :: int
  idx_share_url :: "string option"
  idx_worktree_path :: "string option"
  idx_worktree_branch :: "string option"
  idx_data :: "json option"

record messages_row =
  msg_id :: string
  msg_sessionID :: string
  msg_created_at :: "int option"
  msg_data :: json

record message_parts_row =
  part_sessionID :: string
  part_messageID :: string
  part_id :: string
  part_data :: json

record session_diff_row =
  diff_sessionID :: string
  diff_data :: json

record store =
  meta :: "(string \<times> string) list"
  sessions :: "sessions_row list"
  session_index :: "SessionIndexRecord list"
  messages :: "messages_row list"
  message_parts :: "message_parts_row list"
  session_diff :: "session_diff_row list"

definition empty_store :: store where
  "empty_store = \<lparr>meta = [], sessions = [], session_index = [], messages = [],
     message_parts = [], session_diff = []\<rparr>"

section \<open>The SQL the code uses\<close>

text \<open>\<^verbatim>\<open>INSERT OR REPLACE\<close>: rows with the new row's primary key are deleted, the new row
  is added.\<close>

definition insert_or_replace :: "('r \<Rightarrow> 'k) \<Rightarrow> 'r \<Rightarrow> 'r list \<Rightarrow> 'r list" where
  "insert_or_replace key r t = filter (\<lambda>x. key x \<noteq> key r) t @ [r]"

text \<open>\<^verbatim>\<open>INSERT ... ON CONFLICT(id) DO UPDATE SET\<close> every column to the new value: the row
  with that key is overwritten where it stands, or the new row is added.\<close>

definition upsert :: "('r \<Rightarrow> 'k) \<Rightarrow> 'r \<Rightarrow> 'r list \<Rightarrow> 'r list" where
  "upsert key r t =
     (if key r \<in> key ` set t then map (\<lambda>x. if key x = key r then r else x) t else t @ [r])"

text \<open>\<^verbatim>\<open>.get()\<close>: the first row of the result, or \<^verbatim>\<open>undefined\<close>.\<close>

fun get_row :: "'r list \<Rightarrow> 'r option" where
  "get_row [] = None"
| "get_row (r # rs) = Some r"

text \<open>\<^verbatim>\<open>ORDER BY\<close>: insertion sort by the comparison \<open>le\<close> of the ordering terms.\<close>

fun insert_by :: "('r \<Rightarrow> 'r \<Rightarrow> bool) \<Rightarrow> 'r \<Rightarrow> 'r list \<Rightarrow> 'r list" where
  "insert_by le x [] = [x]"
| "insert_by le x (y # ys) = (if le x y then x # y # ys else y # insert_by le x ys)"

definition order_by :: "('r \<Rightarrow> 'r \<Rightarrow> bool) \<Rightarrow> 'r list \<Rightarrow> 'r list" where
  "order_by le rs = foldr (insert_by le) rs []"

text \<open>\<^verbatim>\<open>LIMIT ?\<close>: SQLite puts no upper bound on the rows when the limit is negative.\<close>

definition sql_limit :: "int \<Rightarrow> 'r list \<Rightarrow> 'r list" where
  "sql_limit n rs = (if n < 0 then rs else take (nat n) rs)"

text \<open>Comparison of a nullable integer column in \<^verbatim>\<open>ORDER BY\<close>: \<^verbatim>\<open>NULL\<close> sorts below
  every value.\<close>

fun null_less :: "int option \<Rightarrow> int option \<Rightarrow> bool" where
  "null_less None None = False"
| "null_less None (Some b) = True"
| "null_less (Some a) None = False"
| "null_less (Some a) (Some b) = (a < b)"

text \<open>\<^verbatim>\<open>COALESCE(x, 0)\<close>.\<close>

fun coalesce0 :: "int option \<Rightarrow> int" where
  "coalesce0 None = 0"
| "coalesce0 (Some n) = n"

text \<open>\<^verbatim>\<open>LIKE\<close>: \<^verbatim>\<open>%\<close> matches any run of characters, \<^verbatim>\<open>_\<close> any one character, and
  ASCII letters match without regard to case. A character is a byte here.\<close>

definition ascii_lower :: "char \<Rightarrow> char" where
  "ascii_lower c =
     (let n = (of_char c :: nat) in if 65 \<le> n \<and> n \<le> 90 then char_of (n + 32) else c)"

fun sql_like :: "string \<Rightarrow> string \<Rightarrow> bool" where
  "sql_like [] [] = True"
| "sql_like [] (c # cs) = False"
| "sql_like (p # ps) [] = (p = CHR ''%'' \<and> sql_like ps [])"
| "sql_like (p # ps) (c # cs) =
     (if p = CHR ''%'' then sql_like ps (c # cs) \<or> sql_like (p # ps) cs
      else (p = CHR ''_'' \<or> ascii_lower p = ascii_lower c) \<and> sql_like ps cs)"

section \<open>Meta store\<close>

definition metaGet :: "string \<Rightarrow> store \<Rightarrow> string option" where
  "metaGet key s = map_option snd (get_row (filter (\<lambda>row. fst row = key) (meta s)))"

definition metaSet :: "string \<Rightarrow> string \<Rightarrow> store \<Rightarrow> store" where
  "metaSet key val s = s\<lparr>meta := insert_or_replace fst (key, val) (meta s)\<rparr>"

section \<open>Session index: deriving and writing a row\<close>

text \<open>\<^verbatim>\<open>...(c ? { k: v } : {})\<close>: the property is spread into the object when \<open>c\<close> holds.\<close>

fun spread_if :: "bool \<Rightarrow> string \<Rightarrow> json option \<Rightarrow> (string \<times> json) list" where
  "spread_if True k (Some v) = [(k, v)]"
| "spread_if c k v = []"

definition sessionIndexData :: "json \<Rightarrow> json option" where
  "sessionIndexData session =
     (let data =
        spread_if (truthy (js_prop session ''mode'')) ''mode'' (js_prop session ''mode'') @
        spread_if (truthy (js_prop session ''agent'')) ''agent'' (js_prop session ''agent'') @
        spread_if (truthy (js_prop session ''model'')) ''model'' (js_prop session ''model'') @
        spread_if (js_prop session ''variant'' \<noteq> None) ''variant'' (js_prop session ''variant'') @
        spread_if (js_prop session ''thinking'' \<noteq> None) ''thinking''
          (js_prop session ''thinking'') @
        spread_if (truthy (js_prop session ''worktreeRequested'')) ''worktreeRequested''
          (Some (JBool True)) @
        spread_if (truthy (js_prop session ''worktreeCleanup'')) ''worktreeCleanup''
          (js_prop session ''worktreeCleanup'');
        has =
          (map_of data ''mode'' \<noteq> None \<or>
           map_of data ''agent'' \<noteq> None \<or>
           map_of data ''model'' \<noteq> None \<or>
           map_of data ''variant'' \<noteq> None \<or>
           map_of data ''thinking'' \<noteq> None \<or>
           map_of data ''worktreeRequested'' \<noteq> None \<or>
           map_of data ''worktreeCleanup'' \<noteq> None)
      in if \<not> has then None else Some (JObj data))"

definition sessionIndexRow :: "json \<Rightarrow> SessionIndexRecord option" where
  "sessionIndexRow session =
     (let title = string_or (js_prop session ''title'') [] in
      if title = [] then None else
      let directory = string_or (js_prop session ''directory'') [] in
      if directory = [] then None else
      let summary = js_prop session ''summary'';
          share = js_prop session ''share'';
          worktree = js_prop session ''worktree'';
          data = sessionIndexData session;
          version = string_or_null (js_prop session ''version'');
          createdAt = number_or_null (opt_prop (js_prop session ''time'') ''created'');
          updatedAt = (case number_or_null (opt_prop (js_prop session ''time'') ''updated'') of
                         Some u \<Rightarrow> Some u | None \<Rightarrow> createdAt)
      in Some \<lparr>
        idx_id = str_prop session ''id'',
        idx_projectID = str_prop session ''projectID'',
        idx_parentID = string_or_null (js_prop session ''parentID''),
        idx_title = title,
        idx_directory = directory,
        idx_version = version,
        idx_created_at = createdAt,
        idx_updated_at = updatedAt,
        idx_archived_at = number_or_null (opt_prop (js_prop session ''time'') ''archived''),
        idx_additions = number_or_zero (opt_prop summary ''additions''),
        idx_deletions = number_or_zero (opt_prop summary ''deletions''),
        idx_files_changed = number_or_zero (opt_prop summary ''files''),
        idx_share_url = string_or_null (opt_prop share ''url''),
        idx_worktree_path = string_or_null (opt_prop worktree ''path''),
        idx_worktree_branch = string_or_null (opt_prop worktree ''branch''),
        idx_data = data\<rparr>)"

definition writeSessionIndexWithDb :: "json \<Rightarrow> store \<Rightarrow> store" where
  "writeSessionIndexWithDb session s =
     (case sessionIndexRow session of
        None \<Rightarrow> s
      | Some row \<Rightarrow> s\<lparr>session_index := upsert idx_id row (session_index s)\<rparr>)"

definition writeSessionIndex :: "json \<Rightarrow> store \<Rightarrow> store" where
  "writeSessionIndex session s = writeSessionIndexWithDb session s"

section \<open>Backfill of the index\<close>

text \<open>The rows are read with \<^verbatim>\<open>.all()\<close> before the loop starts; the loop writes
  \<^verbatim>\<open>session_index\<close> only. \<^verbatim>\<open>if (seeded) return\<close> tests a string: the empty string is
  falsy.\<close>

definition ensureSessionIndex :: "store \<Rightarrow> store" where
  "ensureSessionIndex s =
     (let seeded = metaGet ''session-index-seeded'' s in
      if seeded \<noteq> None \<and> seeded \<noteq> Some [] then s
      else
        let rows = map ses_data (sessions s);
            s' = fold (\<lambda>session st. writeSessionIndex session st) rows s
        in metaSet ''session-index-seeded'' ''1'' s')"

text \<open>A read that seeds the index returns its result and the store it leaves.\<close>

definition readSessionIndexRow :: "string \<Rightarrow> store \<Rightarrow> SessionIndexRecord option \<times> store" where
  "readSessionIndexRow i s =
     (let s' = ensureSessionIndex s
      in (get_row (filter (\<lambda>r. idx_id r = i) (session_index s')), s'))"

section \<open>Statements, transactions and failure\<close>

text \<open>
  A mutation is the sequence of statements it hands to \<^verbatim>\<open>db().run\<close>. A statement that
  raises (an I/O error, a full disk) leaves the database as it was; the statements before
  it have run. Outside a transaction each statement commits by itself. Inside
  \<^verbatim>\<open>db().transaction(fn)\<close> the work of \<open>fn\<close> is committed when \<open>fn\<close> returns and rolled
  back when it raises; the error is raised again.

  \<open>run_all\<close> is the run in which no statement raises; \<open>run_stmts (Some k)\<close> is the run
  in which statement number \<open>k\<close> (from 0) raises.
\<close>

datatype error = SqliteError

type_synonym stmt = "store \<Rightarrow> store"

definition run_all :: "stmt list \<Rightarrow> store \<Rightarrow> store" where
  "run_all stmts s = fold (\<lambda>stmt st. stmt st) stmts s"

fun run_stmts :: "nat option \<Rightarrow> stmt list \<Rightarrow> store \<Rightarrow> error option \<times> store" where
  "run_stmts None stmts s = (None, run_all stmts s)"
| "run_stmts (Some k) stmts s =
     (if k < length stmts then (Some SqliteError, run_all (take k stmts) s)
      else (None, run_all stmts s))"

definition transaction :: "nat option \<Rightarrow> stmt list \<Rightarrow> store \<Rightarrow> error option \<times> store" where
  "transaction k stmts s =
     (case run_stmts k stmts s of
        (None, s') \<Rightarrow> (None, s')
      | (Some e, s') \<Rightarrow> (Some e, s))"

section \<open>Sessions\<close>

definition readSession :: "string \<Rightarrow> store \<Rightarrow> json option" where
  "readSession i s = map_option ses_data (get_row (filter (\<lambda>r. ses_id r = i) (sessions s)))"

definition insert_session :: "json \<Rightarrow> stmt" where
  "insert_session payload s =
     (let createdAt = number_or_null (opt_prop (js_prop payload ''time'') ''created'');
          updatedAt = number_or_null (opt_prop (js_prop payload ''time'') ''updated'')
      in s\<lparr>sessions := insert_or_replace ses_id
            \<lparr>ses_id = str_prop payload ''id'',
             ses_projectID = str_prop payload ''projectID'',
             ses_parentID = string_or_null (js_prop payload ''parentID''),
             ses_created_at = createdAt,
             ses_updated_at = updatedAt,
             ses_data = payload\<rparr> (sessions s)\<rparr>)"

text \<open>The body of the transaction in \<^verbatim>\<open>writeSession\<close>.\<close>

definition writeSession_stmts :: "json \<Rightarrow> stmt list" where
  "writeSession_stmts payload = [insert_session payload, writeSessionIndexWithDb payload]"

definition writeSession :: "json \<Rightarrow> store \<Rightarrow> store" where
  "writeSession input s = run_all (writeSession_stmts input) s"

definition writeSession_failing :: "nat option \<Rightarrow> json \<Rightarrow> store \<Rightarrow> error option \<times> store" where
  "writeSession_failing k input s = transaction k (writeSession_stmts input) s"

definition listSessions :: "string \<Rightarrow> store \<Rightarrow> string list" where
  "listSessions projectID s =
     map ses_id (order_by (\<lambda>a b. ses_id a \<le> ses_id b)
       (filter (\<lambda>r. ses_projectID r = projectID) (sessions s)))"

definition delete_session :: "string \<Rightarrow> stmt" where
  "delete_session i s = s\<lparr>sessions := filter (\<lambda>r. ses_id r \<noteq> i) (sessions s)\<rparr>"

definition delete_session_index :: "string \<Rightarrow> stmt" where
  "delete_session_index i s = s\<lparr>session_index := filter (\<lambda>r. idx_id r \<noteq> i) (session_index s)\<rparr>"

text \<open>\<^verbatim>\<open>removeSession\<close> issues its two statements one after the other, with no
  transaction around them.\<close>

definition removeSession_stmts :: "string \<Rightarrow> stmt list" where
  "removeSession_stmts i = [delete_session i, delete_session_index i]"

definition removeSession :: "string \<Rightarrow> store \<Rightarrow> store" where
  "removeSession i s = run_all (removeSession_stmts i) s"

definition removeSession_failing :: "nat option \<Rightarrow> string \<Rightarrow> store \<Rightarrow> error option \<times> store" where
  "removeSession_failing k i s = run_stmts k (removeSession_stmts i) s"

section \<open>Listing the session index\<close>

record SessionIndexQuery =
  q_projectID :: string
  q_limit :: "int option"
  q_start :: "int option"
  q_afterID :: "string option"
  q_search :: "string option"
  q_directory :: "string option"
  q_includeArchived :: "bool option"

text \<open>\<^verbatim>\<open>if (x)\<close> on an optional string: \<^verbatim>\<open>undefined\<close> and \<^verbatim>\<open>""\<close> are falsy.\<close>

fun truthy_string :: "string option \<Rightarrow> string option" where
  "truthy_string None = None"
| "truthy_string (Some x) = (if x = [] then None else Some x)"

text \<open>\<^verbatim>\<open>(COALESCE(updated_at, 0) < ? OR (COALESCE(updated_at, 0) = ? AND id < ?))\<close>\<close>

definition cursor_clause :: "int \<Rightarrow> string \<Rightarrow> SessionIndexRecord \<Rightarrow> bool" where
  "cursor_clause cursor i r \<longleftrightarrow>
     coalesce0 (idx_updated_at r) < cursor \<or>
     (coalesce0 (idx_updated_at r) = cursor \<and> idx_id r < i)"

text \<open>\<^verbatim>\<open>after.updated_at ?? after.created_at ?? 0\<close>\<close>

definition cursor_of :: "SessionIndexRecord \<Rightarrow> int" where
  "cursor_of after =
     (case idx_updated_at after of
        Some u \<Rightarrow> u
      | None \<Rightarrow> (case idx_created_at after of Some c \<Rightarrow> c | None \<Rightarrow> 0))"

text \<open>\<^verbatim>\<open>ORDER BY updated_at DESC, id DESC\<close>\<close>

definition index_order :: "SessionIndexRecord \<Rightarrow> SessionIndexRecord \<Rightarrow> bool" where
  "index_order a b \<longleftrightarrow>
     null_less (idx_updated_at b) (idx_updated_at a) \<or>
     (idx_updated_at a = idx_updated_at b \<and> idx_id b \<le> idx_id a)"

text \<open>The \<^verbatim>\<open>WHERE\<close> clause is the conjunction of the collected clauses. A comparison
  with a \<^verbatim>\<open>NULL\<close> column is not true.\<close>

definition listSessionIndex ::
  "SessionIndexQuery \<Rightarrow> store \<Rightarrow> SessionIndexRecord list \<times> store" where
  "listSessionIndex input s0 =
     (let s1 = ensureSessionIndex s0;
          clauses1 = [\<lambda>r. idx_projectID r = q_projectID input];
          clauses2 = clauses1 @
            (case q_start input of
               None \<Rightarrow> []
             | Some start \<Rightarrow>
                 [\<lambda>r. case idx_updated_at r of None \<Rightarrow> False | Some u \<Rightarrow> start \<le> u]);
          (clauses3, s2) =
            (case truthy_string (q_afterID input) of
               None \<Rightarrow> (clauses2, s1)
             | Some afterID \<Rightarrow>
                 (case readSessionIndexRow afterID s1 of
                    (None, s') \<Rightarrow> (clauses2, s')
                  | (Some after, s') \<Rightarrow>
                      (clauses2 @ [cursor_clause (cursor_of after) (idx_id after)], s')));
          clauses4 = clauses3 @
            (case truthy_string (q_search input) of
               None \<Rightarrow> []
             | Some search \<Rightarrow> [\<lambda>r. sql_like (''%'' @ search @ ''%'') (idx_title r)]);
          clauses5 = clauses4 @
            (case truthy_string (q_directory input) of
               None \<Rightarrow> []
             | Some directory \<Rightarrow> [\<lambda>r. idx_directory r = directory]);
          includeArchived = (case q_includeArchived input of None \<Rightarrow> True | Some b \<Rightarrow> b);
          clauses6 = clauses5 @
            (if \<not> includeArchived then [\<lambda>r. idx_archived_at r = None] else []);
          rows = order_by index_order
                   (filter (\<lambda>r. list_all (\<lambda>clause. clause r) clauses6) (session_index s2))
      in (case q_limit input of None \<Rightarrow> rows | Some limit \<Rightarrow> sql_limit limit rows, s2))"

definition listSessionIndexChildren ::
  "string \<Rightarrow> store \<Rightarrow> SessionIndexRecord list \<times> store" where
  "listSessionIndexChildren parentID s0 =
     (let s1 = ensureSessionIndex s0
      in (order_by index_order
            (filter (\<lambda>r. idx_parentID r = Some parentID) (session_index s1)), s1))"

section \<open>Messages and parts\<close>

definition readMessage :: "string \<Rightarrow> string \<Rightarrow> store \<Rightarrow> json option" where
  "readMessage sessionID messageID s =
     map_option msg_data
       (get_row (filter (\<lambda>r. msg_sessionID r = sessionID \<and> msg_id r = messageID) (messages s)))"

definition writeMessage :: "json \<Rightarrow> store \<Rightarrow> store" where
  "writeMessage input s =
     (case js_prop input ''info'' of
        None \<Rightarrow> s
      | Some info \<Rightarrow>
          if \<not> truthy (Some info) then s
          else
            let created = number_or_null (opt_prop (js_prop info ''time'') ''created'')
            in s\<lparr>messages := insert_or_replace msg_id
                  \<lparr>msg_id = str_prop info ''id'',
                   msg_sessionID = str_prop info ''sessionID'',
                   msg_created_at = created,
                   msg_data = JObj [(''info'', info)]\<rparr> (messages s)\<rparr>)"

definition listMessages :: "string \<Rightarrow> store \<Rightarrow> string list" where
  "listMessages sessionID s =
     map msg_id (order_by (\<lambda>a b. msg_id a \<le> msg_id b)
       (filter (\<lambda>r. msg_sessionID r = sessionID) (messages s)))"

definition readParts :: "string \<Rightarrow> string \<Rightarrow> store \<Rightarrow> json list" where
  "readParts sessionID messageID s =
     map part_data (order_by (\<lambda>a b. part_id a \<le> part_id b)
       (filter (\<lambda>p. part_sessionID p = sessionID \<and> part_messageID p = messageID)
          (message_parts s)))"

definition part_key :: "message_parts_row \<Rightarrow> string \<times> string \<times> string" where
  "part_key p = (part_sessionID p, part_messageID p, part_id p)"

definition insert_part :: "string \<Rightarrow> string \<Rightarrow> json \<Rightarrow> stmt" where
  "insert_part sessionID messageID part s =
     s\<lparr>message_parts := insert_or_replace part_key
         \<lparr>part_sessionID = sessionID, part_messageID = messageID,
          part_id = str_prop part ''id'', part_data = part\<rparr> (message_parts s)\<rparr>"

definition writeParts_stmts :: "string \<Rightarrow> string \<Rightarrow> json list \<Rightarrow> stmt list" where
  "writeParts_stmts sessionID messageID parts = map (insert_part sessionID messageID) parts"

definition writeParts :: "string \<Rightarrow> string \<Rightarrow> json list \<Rightarrow> store \<Rightarrow> store" where
  "writeParts sessionID messageID parts s =
     (if parts = [] then s else run_all (writeParts_stmts sessionID messageID parts) s)"

definition delete_part :: "string \<Rightarrow> string \<Rightarrow> string \<Rightarrow> stmt" where
  "delete_part sessionID messageID i s =
     s\<lparr>message_parts := filter (\<lambda>p. \<not> (part_sessionID p = sessionID \<and>
           part_messageID p = messageID \<and> part_id p = i)) (message_parts s)\<rparr>"

definition removeParts_stmts :: "string \<Rightarrow> string \<Rightarrow> string list \<Rightarrow> stmt list" where
  "removeParts_stmts sessionID messageID partIDs = map (delete_part sessionID messageID) partIDs"

definition removeParts :: "string \<Rightarrow> string \<Rightarrow> string list \<Rightarrow> store \<Rightarrow> store" where
  "removeParts sessionID messageID partIDs s =
     (if partIDs = [] then s else run_all (removeParts_stmts sessionID messageID partIDs) s)"

definition removeParts_failing ::
  "nat option \<Rightarrow> string \<Rightarrow> string \<Rightarrow> string list \<Rightarrow> store \<Rightarrow> error option \<times> store" where
  "removeParts_failing k sessionID messageID partIDs s =
     (if partIDs = [] then (None, s)
      else transaction k (removeParts_stmts sessionID messageID partIDs) s)"

definition removeMessageParts :: "string \<Rightarrow> string \<Rightarrow> stmt" where
  "removeMessageParts sessionID messageID s =
     s\<lparr>message_parts := filter (\<lambda>p. \<not> (part_sessionID p = sessionID \<and>
           part_messageID p = messageID)) (message_parts s)\<rparr>"

section \<open>Pages of messages\<close>

record MessageListInput =
  ml_sessionID :: string
  ml_limit :: "int option"
  ml_afterID :: "string option"

text \<open>\<^verbatim>\<open>ORDER BY id DESC\<close>\<close>

definition msg_id_desc :: "messages_row \<Rightarrow> messages_row \<Rightarrow> bool" where
  "msg_id_desc a b \<longleftrightarrow> msg_id b \<le> msg_id a"

text \<open>One \<^verbatim>\<open>SELECT id FROM messages ...\<close> for each of the four cases of cursor and
  limit; the same four statements are the subqueries of \<^verbatim>\<open>listMessagesWithPartsPage\<close>.\<close>

definition listMessagesPage :: "MessageListInput \<Rightarrow> store \<Rightarrow> string list" where
  "listMessagesPage input s =
     (case (truthy_string (ml_afterID input), ml_limit input) of
        (Some afterID, Some limit) \<Rightarrow>
          map msg_id (sql_limit limit (order_by msg_id_desc
            (filter (\<lambda>r. msg_sessionID r = ml_sessionID input \<and> msg_id r < afterID)
               (messages s))))
      | (Some afterID, None) \<Rightarrow>
          map msg_id (order_by msg_id_desc
            (filter (\<lambda>r. msg_sessionID r = ml_sessionID input \<and> msg_id r < afterID)
               (messages s)))
      | (None, Some limit) \<Rightarrow>
          map msg_id (sql_limit limit (order_by msg_id_desc
            (filter (\<lambda>r. msg_sessionID r = ml_sessionID input) (messages s))))
      | (None, None) \<Rightarrow>
          map msg_id (order_by msg_id_desc
            (filter (\<lambda>r. msg_sessionID r = ml_sessionID input) (messages s))))"

definition countMessages :: "string \<Rightarrow> store \<Rightarrow> int" where
  "countMessages sessionID s =
     int (length (filter (\<lambda>r. msg_sessionID r = sessionID) (messages s)))"

section \<open>Messages joined with their parts\<close>

record join_row =
  jr_messageID :: string
  jr_message :: json
  jr_part :: "json option"

record MessageWithParts =
  mwp_info :: json
  mwp_parts :: "json list"

text \<open>\<^verbatim>\<open>FROM messages m LEFT JOIN message_parts p ON p.sessionID = m.sessionID AND
  p.messageID = m.id\<close>: a message with no part gives one row whose part is \<^verbatim>\<open>NULL\<close>.\<close>

definition left_join_parts ::
  "messages_row list \<Rightarrow> message_parts_row list \<Rightarrow>
     (messages_row \<times> message_parts_row option) list" where
  "left_join_parts ms ps =
     concat (map (\<lambda>m.
       let matches = filter (\<lambda>p. part_sessionID p = msg_sessionID m \<and>
                                   part_messageID p = msg_id m) ps
       in if matches = [] then [(m, None)] else map (\<lambda>p. (m, Some p)) matches) ms)"

text \<open>\<^verbatim>\<open>ORDER BY m.id DESC, p.id ASC\<close>, a \<^verbatim>\<open>NULL\<close> part id first.\<close>

fun null_le_string :: "string option \<Rightarrow> string option \<Rightarrow> bool" where
  "null_le_string None b = True"
| "null_le_string (Some a) None = False"
| "null_le_string (Some a) (Some b) = (a \<le> b)"

definition join_order ::
  "messages_row \<times> message_parts_row option \<Rightarrow>
   messages_row \<times> message_parts_row option \<Rightarrow> bool" where
  "join_order a b \<longleftrightarrow>
     msg_id (fst b) < msg_id (fst a) \<or>
     (msg_id (fst a) = msg_id (fst b) \<and>
      null_le_string (map_option part_id (snd a)) (map_option part_id (snd b)))"

text \<open>The joined query, given the ids that its subquery \<^verbatim>\<open>m.id IN (SELECT id ...)\<close>
  returns.\<close>

definition select_messages_with_parts :: "string \<Rightarrow> string list \<Rightarrow> store \<Rightarrow> join_row list" where
  "select_messages_with_parts sessionID ids s =
     map (\<lambda>(m, p). \<lparr>jr_messageID = msg_id m, jr_message = msg_data m,
                      jr_part = map_option part_data p\<rparr>)
       (order_by join_order
          (filter (\<lambda>(m, p). msg_sessionID m = sessionID \<and> msg_id m \<in> set ids)
             (left_join_parts (messages s) (message_parts s))))"

text \<open>\<^verbatim>\<open>parsed.info ?? parsed\<close>\<close>

definition info_of :: "json \<Rightarrow> json" where
  "info_of parsed =
     (case js_prop parsed ''info'' of
        None \<Rightarrow> parsed
      | Some JNull \<Rightarrow> parsed
      | Some info \<Rightarrow> info)"

text \<open>
  The loop of \<^verbatim>\<open>groupRows\<close>. \<^verbatim>\<open>current.value\<close> is the entry pushed last, the same
  object as the last element of \<^verbatim>\<open>result\<close>: a part pushed to it is pushed to that
  element. \<^verbatim>\<open>!last\<close> holds before the first push only.
\<close>

definition groupRows_step :: "MessageWithParts list \<Rightarrow> join_row \<Rightarrow> MessageWithParts list" where
  "groupRows_step result row =
     (let result' =
        (if result = [] \<or>
            js_prop (mwp_info (last result)) ''id'' \<noteq> Some (JStr (jr_messageID row))
         then result @ [\<lparr>mwp_info = info_of (jr_message row), mwp_parts = []\<rparr>]
         else result)
      in case jr_part row of
           None \<Rightarrow> result'
         | Some part \<Rightarrow>
             butlast result' @
               [(last result')\<lparr>mwp_parts := mwp_parts (last result') @ [part]\<rparr>])"

definition groupRows :: "join_row list \<Rightarrow> MessageWithParts list" where
  "groupRows rows = foldl groupRows_step [] rows"

definition listMessagesWithPartsPage :: "MessageListInput \<Rightarrow> store \<Rightarrow> MessageWithParts list" where
  "listMessagesWithPartsPage input s =
     (case (truthy_string (ml_afterID input), ml_limit input) of
        (Some afterID, Some limit) \<Rightarrow>
          groupRows (select_messages_with_parts (ml_sessionID input)
            (map msg_id (sql_limit limit (order_by msg_id_desc
               (filter (\<lambda>r. msg_sessionID r = ml_sessionID input \<and> msg_id r < afterID)
                  (messages s))))) s)
      | (Some afterID, None) \<Rightarrow>
          groupRows (select_messages_with_parts (ml_sessionID input)
            (map msg_id (order_by msg_id_desc
               (filter (\<lambda>r. msg_sessionID r = ml_sessionID input \<and> msg_id r < afterID)
                  (messages s)))) s)
      | (None, Some limit) \<Rightarrow>
          groupRows (select_messages_with_parts (ml_sessionID input)
            (map msg_id (sql_limit limit (order_by msg_id_desc
               (filter (\<lambda>r. msg_sessionID r = ml_sessionID input) (messages s))))) s)
      | (None, None) \<Rightarrow>
          groupRows (select_messages_with_parts (ml_sessionID input)
            (map msg_id (order_by msg_id_desc
               (filter (\<lambda>r. msg_sessionID r = ml_sessionID input) (messages s)))) s))"

section \<open>Removing messages\<close>

definition delete_message :: "string \<Rightarrow> string \<Rightarrow> stmt" where
  "delete_message sessionID messageID s =
     s\<lparr>messages := filter (\<lambda>r. \<not> (msg_sessionID r = sessionID \<and> msg_id r = messageID))
         (messages s)\<rparr>"

text \<open>\<^verbatim>\<open>removeMessage\<close> and \<^verbatim>\<open>removeMessages\<close> issue two statements each, with no
  transaction around them.\<close>

definition removeMessage_stmts :: "string \<Rightarrow> string \<Rightarrow> stmt list" where
  "removeMessage_stmts sessionID messageID =
     [delete_message sessionID messageID, removeMessageParts sessionID messageID]"

definition removeMessage :: "string \<Rightarrow> string \<Rightarrow> store \<Rightarrow> store" where
  "removeMessage sessionID messageID s = run_all (removeMessage_stmts sessionID messageID) s"

definition removeMessage_failing ::
  "nat option \<Rightarrow> string \<Rightarrow> string \<Rightarrow> store \<Rightarrow> error option \<times> store" where
  "removeMessage_failing k sessionID messageID s =
     run_stmts k (removeMessage_stmts sessionID messageID) s"

definition delete_session_messages :: "string \<Rightarrow> stmt" where
  "delete_session_messages sessionID s =
     s\<lparr>messages := filter (\<lambda>r. msg_sessionID r \<noteq> sessionID) (messages s)\<rparr>"

definition delete_session_parts :: "string \<Rightarrow> stmt" where
  "delete_session_parts sessionID s =
     s\<lparr>message_parts := filter (\<lambda>p. part_sessionID p \<noteq> sessionID) (message_parts s)\<rparr>"

definition removeMessages_stmts :: "string \<Rightarrow> stmt list" where
  "removeMessages_stmts sessionID =
     [delete_session_messages sessionID, delete_session_parts sessionID]"

definition removeMessages :: "string \<Rightarrow> store \<Rightarrow> store" where
  "removeMessages sessionID s = run_all (removeMessages_stmts sessionID) s"

definition removeMessages_failing :: "nat option \<Rightarrow> string \<Rightarrow> store \<Rightarrow> error option \<times> store" where
  "removeMessages_failing k sessionID s = run_stmts k (removeMessages_stmts sessionID) s"

section \<open>Diffs\<close>

definition readDiff :: "string \<Rightarrow> store \<Rightarrow> json option" where
  "readDiff sessionID s =
     map_option diff_data (get_row (filter (\<lambda>r. diff_sessionID r = sessionID) (session_diff s)))"

definition writeDiff :: "string \<Rightarrow> json \<Rightarrow> store \<Rightarrow> store" where
  "writeDiff sessionID v s =
     s\<lparr>session_diff := insert_or_replace diff_sessionID
         \<lparr>diff_sessionID = sessionID, diff_data = v\<rparr> (session_diff s)\<rparr>"

definition removeDiff :: "string \<Rightarrow> store \<Rightarrow> store" where
  "removeDiff sessionID s =
     s\<lparr>session_diff := filter (\<lambda>r. diff_sessionID r \<noteq> sessionID) (session_diff s)\<rparr>"

section \<open>Invariants, the listing in the words of the specification, and example stores\<close>

text \<open>A comparison that \<^verbatim>\<open>ORDER BY\<close> can sort by: any two rows compare, transitively.\<close>

definition total_order_on_rows :: "('r \<Rightarrow> 'r \<Rightarrow> bool) \<Rightarrow> bool" where
  "total_order_on_rows le \<longleftrightarrow>
     (\<forall>x y. le x y \<or> le y x) \<and> (\<forall>x y z. le x y \<longrightarrow> le y z \<longrightarrow> le x z)"

text \<open>A message record as the test suite writes it: \<^verbatim>\<open>info\<close> and a \<^verbatim>\<open>parts\<close> array.\<close>

definition msg_example :: json where
  "msg_example =
     JObj [(''info'', JObj [(''id'', JStr ''m1''), (''sessionID'', JStr ''s1'')]),
           (''parts'', JArr [])]"

text \<open>The row that \<^verbatim>\<open>writeParts\<close> binds for one part.\<close>

definition part_row :: "string \<Rightarrow> string \<Rightarrow> json \<Rightarrow> message_parts_row" where
  "part_row sid mid part =
     \<lparr>part_sessionID = sid, part_messageID = mid,
      part_id = str_prop part ''id'', part_data = part\<rparr>"

text \<open>A session as the test suite writes it.\<close>

definition session_example :: json where
  "session_example =
     JObj [(''id'', JStr ''ses_1''), (''projectID'', JStr ''project_1''),
           (''title'', JStr ''First session''), (''directory'', JStr ''/repo/a''),
           (''version'', JStr ''v1''),
           (''time'', JObj [(''created'', JNum 1000), (''updated'', JNum 1000)])]"

text \<open>
  The listing of C2 in the words of the specification: the full list of the session's
  message ids in descending order, windowed by the cursor, then by the count.
\<close>

definition session_message_ids_desc :: "string \<Rightarrow> store \<Rightarrow> string list" where
  "session_message_ids_desc sessionID s =
     rev (sort (map msg_id (filter (\<lambda>r. msg_sessionID r = sessionID) (messages s))))"

definition window_page :: "string option \<Rightarrow> int option \<Rightarrow> string list \<Rightarrow> string list" where
  "window_page cursor limit ids =
     (let windowed = (case cursor of None \<Rightarrow> ids | Some c \<Rightarrow> filter (\<lambda>i. i < c) ids)
      in case limit of None \<Rightarrow> windowed | Some n \<Rightarrow> take (nat n) windowed)"

text \<open>A negative limit bounds nothing.\<close>

fun bounded_limit :: "int option \<Rightarrow> int option" where
  "bounded_limit None = None"
| "bounded_limit (Some n) = (if n < 0 then None else Some n)"

text \<open>A message record with the given id and session, as the test suite builds it.\<close>

definition message_record :: "string \<Rightarrow> string \<Rightarrow> json" where
  "message_record i sid =
     JObj [(''info'', JObj [(''id'', JStr i), (''sessionID'', JStr sid),
                            (''time'', JObj [(''created'', JNum 1700000000000)])]),
           (''parts'', JArr [])]"

definition four_messages_store :: store where
  "four_messages_store =
     writeMessage (message_record ''msg_3'' ''ses_1'')
       (writeMessage (message_record ''msg_2'' ''ses_1'')
         (writeMessage (message_record ''msg_1'' ''ses_1'')
           (writeMessage (message_record ''msg_0'' ''ses_1'') empty_store)))"

text \<open>The \<^verbatim>\<open>SELECT * FROM session_index WHERE id = ?\<close> of \<^verbatim>\<open>readSessionIndexRow\<close>, on a
  store as it stands.\<close>

definition index_row_of :: "string \<Rightarrow> store \<Rightarrow> SessionIndexRecord option" where
  "index_row_of i s = get_row (filter (\<lambda>r. idx_id r = i) (session_index s))"

text \<open>The query \<^verbatim>\<open>{projectID}\<close>, every option absent.\<close>

definition all_of_project :: "string \<Rightarrow> SessionIndexQuery" where
  "all_of_project projectID =
     \<lparr>q_projectID = projectID, q_limit = None, q_start = None, q_afterID = None,
      q_search = None, q_directory = None, q_includeArchived = None\<rparr>"

text \<open>The \<^verbatim>\<open>LIMIT ?\<close> suffix, present when \<^verbatim>\<open>limit !== undefined\<close>.\<close>

definition limit_rows :: "int option \<Rightarrow> 'r list \<Rightarrow> 'r list" where
  "limit_rows limit rows = (case limit of None \<Rightarrow> rows | Some n \<Rightarrow> sql_limit n rows)"

text \<open>Sessions for the examples: titled, in a directory, with equal created and updated
  times.\<close>

definition session_record :: "string \<Rightarrow> string \<Rightarrow> string \<Rightarrow> string \<Rightarrow> int \<Rightarrow> json" where
  "session_record i projectID title directory t =
     JObj [(''id'', JStr i), (''projectID'', JStr projectID),
           (''title'', JStr title), (''directory'', JStr directory),
           (''version'', JStr ''v1''),
           (''time'', JObj [(''created'', JNum t), (''updated'', JNum t)])]"

definition index_record :: "string \<Rightarrow> string \<Rightarrow> string \<Rightarrow> string \<Rightarrow> int \<Rightarrow> SessionIndexRecord" where
  "index_record i projectID title directory t =
     \<lparr>idx_id = i, idx_projectID = projectID, idx_parentID = None, idx_title = title,
      idx_directory = directory, idx_version = Some ''v1'', idx_created_at = Some t,
      idx_updated_at = Some t, idx_archived_at = None, idx_additions = 0, idx_deletions = 0,
      idx_files_changed = 0, idx_share_url = None, idx_worktree_path = None,
      idx_worktree_branch = None, idx_data = None\<rparr>"

definition three_sessions_store :: store where
  "three_sessions_store =
     writeSession (session_record ''ses_3'' ''project_1'' ''Third'' ''/repo/a'' 3000)
       (writeSession (session_record ''ses_2'' ''project_1'' ''Second'' ''/repo/b'' 2000)
         (writeSession (session_record ''ses_1'' ''project_1'' ''First'' ''/repo/a'' 1000)
            empty_store))"

text \<open>A store that holds one message with one part.\<close>

definition message_with_part_store :: store where
  "message_with_part_store =
     writeParts ''ses_1'' ''msg_0'' [JObj [(''id'', JStr ''prt_1'')]]
       (writeMessage (message_record ''msg_0'' ''ses_1'') empty_store)"

text \<open>
  The operations of the store that change it. The reads \<^verbatim>\<open>readSessionIndexRow\<close>,
  \<^verbatim>\<open>listSessionIndex\<close> and \<^verbatim>\<open>listSessionIndexChildren\<close> are among them, since they seed
  the index. The other reads leave the store as it is. \<^verbatim>\<open>writeSessionIndex\<close> is exported by the module as well; the
  operation surface of the specification has no index write, and it is not among the
  operations here.
\<close>

datatype op =
  MetaSet string string
| WriteSession json
| RemoveSession string
| EnsureSessionIndex
| ReadSessionIndexRow string
| ListSessionIndex SessionIndexQuery
| ListSessionIndexChildren string
| WriteMessage json
| WriteParts string string "json list"
| RemoveParts string string "string list"
| RemoveMessageParts string string
| RemoveMessage string string
| RemoveMessages string
| WriteDiff string json
| RemoveDiff string

fun apply_op :: "op \<Rightarrow> store \<Rightarrow> store" where
  "apply_op (MetaSet k v) s = metaSet k v s"
| "apply_op (WriteSession p) s = writeSession p s"
| "apply_op (RemoveSession i) s = removeSession i s"
| "apply_op EnsureSessionIndex s = ensureSessionIndex s"
| "apply_op (ReadSessionIndexRow i) s = snd (readSessionIndexRow i s)"
| "apply_op (ListSessionIndex q) s = snd (listSessionIndex q s)"
| "apply_op (ListSessionIndexChildren i) s = snd (listSessionIndexChildren i s)"
| "apply_op (WriteMessage m) s = writeMessage m s"
| "apply_op (WriteParts sid mid ps) s = writeParts sid mid ps s"
| "apply_op (RemoveParts sid mid ids) s = removeParts sid mid ids s"
| "apply_op (RemoveMessageParts sid mid) s = removeMessageParts sid mid s"
| "apply_op (RemoveMessage sid mid) s = removeMessage sid mid s"
| "apply_op (RemoveMessages sid) s = removeMessages sid s"
| "apply_op (WriteDiff sid v) s = writeDiff sid v s"
| "apply_op (RemoveDiff sid) s = removeDiff sid s"

text \<open>
  What the schema and the writes give: \<^verbatim>\<open>sessions.id\<close> is a primary key, the id column
  of a session row is the id of its payload, and an index row has the id of a session row.
\<close>

definition tables_ok :: "store \<Rightarrow> bool" where
  "tables_ok s \<longleftrightarrow>
     distinct (map ses_id (sessions s)) \<and>
     list_all (\<lambda>row. ses_id row = str_prop (ses_data row) ''id'') (sessions s) \<and>
     list_all (\<lambda>x. idx_id x \<in> set (map ses_id (sessions s))) (session_index s)"

text \<open>
  The index follows the sessions: a session whose payload derives an index row has that
  row in the index, and (by \<open>tables_ok\<close>) every index row belongs to a session.
\<close>

definition index_consistent :: "store \<Rightarrow> bool" where
  "index_consistent s \<longleftrightarrow>
     tables_ok s \<and>
     list_all (\<lambda>row. case sessionIndexRow (ses_data row) of
                        None \<Rightarrow> True
                      | Some r \<Rightarrow> index_row_of (ses_id row) s = Some r) (sessions s)"

text \<open>A session payload with no title and no directory.\<close>

definition untitled_session :: "string \<Rightarrow> string \<Rightarrow> json" where
  "untitled_session i projectID = JObj [(''id'', JStr i), (''projectID'', JStr projectID)]"

text \<open>One step of the backfill on the index table, and the whole loop of
  \<^verbatim>\<open>ensureSessionIndex\<close>.\<close>

abbreviation sweep_step :: "json \<Rightarrow> SessionIndexRecord list \<Rightarrow> SessionIndexRecord list" where
  "sweep_step \<equiv> (\<lambda>p t. case sessionIndexRow p of None \<Rightarrow> t | Some r \<Rightarrow> upsert idx_id r t)"

definition sweep :: "store \<Rightarrow> store" where
  "sweep s = fold (\<lambda>session st. writeSessionIndex session st) (map ses_data (sessions s)) s"

text \<open>A titled session overwritten by a payload without title, in a seeded store; and a
  store written before the index existed.\<close>

definition stale_index_store :: store where
  "stale_index_store =
     writeSession (untitled_session ''ses_1'' ''project_1'')
       (writeSession (session_record ''ses_1'' ''project_1'' ''First'' ''/repo/a'' 1000)
          (ensureSessionIndex empty_store))"

definition legacy_store :: store where
  "legacy_store =
     \<lparr>meta = [],
      sessions = [\<lparr>ses_id = ''ses_1'', ses_projectID = ''project_1'', ses_parentID = None,
                   ses_created_at = Some 1000, ses_updated_at = Some 1000,
                   ses_data = session_record ''ses_1'' ''project_1'' ''First'' ''/repo/a'' 1000\<rparr>],
      session_index = [], messages = [], message_parts = [], session_diff = []\<rparr>"

text \<open>
  What the schema and \<^verbatim>\<open>writeMessage\<close> give for messages and parts: \<^verbatim>\<open>messages.id\<close> and
  \<^verbatim>\<open>(sessionID, messageID, id)\<close> of \<^verbatim>\<open>message_parts\<close> are primary keys, and the payload of
  a message row holds an \<^verbatim>\<open>info\<close> whose id is the id of the row.
\<close>

definition messages_ok :: "store \<Rightarrow> bool" where
  "messages_ok s \<longleftrightarrow>
     distinct (map msg_id (messages s)) \<and>
     distinct (map part_key (message_parts s)) \<and>
     list_all (\<lambda>m. js_prop (info_of (msg_data m)) ''id'' = Some (JStr (msg_id m))) (messages s)"

text \<open>The entry that C8 expects for a message id: the info of \<^verbatim>\<open>readMessage\<close> with the
  parts of \<^verbatim>\<open>readParts\<close>.\<close>

definition message_with_parts :: "string \<Rightarrow> string \<Rightarrow> store \<Rightarrow> MessageWithParts option" where
  "message_with_parts sessionID messageID s =
     (case readMessage sessionID messageID s of
        None \<Rightarrow> None
      | Some parsed \<Rightarrow>
          Some \<lparr>mwp_info = info_of parsed, mwp_parts = readParts sessionID messageID s\<rparr>)"

text \<open>The message rows behind \<^verbatim>\<open>listMessagesPage\<close>, before \<^verbatim>\<open>SELECT id\<close>.\<close>

definition page_rows :: "MessageListInput \<Rightarrow> store \<Rightarrow> messages_row list" where
  "page_rows input s =
     (case (truthy_string (ml_afterID input), ml_limit input) of
        (Some afterID, Some limit) \<Rightarrow>
          sql_limit limit (order_by msg_id_desc
            (filter (\<lambda>r. msg_sessionID r = ml_sessionID input \<and> msg_id r < afterID)
               (messages s)))
      | (Some afterID, None) \<Rightarrow>
          order_by msg_id_desc
            (filter (\<lambda>r. msg_sessionID r = ml_sessionID input \<and> msg_id r < afterID)
               (messages s))
      | (None, Some limit) \<Rightarrow>
          sql_limit limit (order_by msg_id_desc
            (filter (\<lambda>r. msg_sessionID r = ml_sessionID input) (messages s)))
      | (None, None) \<Rightarrow>
          order_by msg_id_desc
            (filter (\<lambda>r. msg_sessionID r = ml_sessionID input) (messages s)))"

text \<open>The parts joined to a message, and its rows in the join: as the join produces them,
  and ordered by part id.\<close>

definition parts_of :: "messages_row \<Rightarrow> store \<Rightarrow> message_parts_row list" where
  "parts_of m s =
     filter (\<lambda>p. part_sessionID p = msg_sessionID m \<and> part_messageID p = msg_id m)
       (message_parts s)"

definition join_block ::
  "messages_row \<Rightarrow> message_parts_row list \<Rightarrow> (messages_row \<times> message_parts_row option) list" where
  "join_block m ps = (if ps = [] then [(m, None)] else map (\<lambda>p. (m, Some p)) ps)"

definition part_id_asc :: "message_parts_row \<Rightarrow> message_parts_row \<Rightarrow> bool" where
  "part_id_asc a b \<longleftrightarrow> part_id a \<le> part_id b"

definition select_row :: "messages_row \<times> message_parts_row option \<Rightarrow> join_row" where
  "select_row mp = \<lparr>jr_messageID = msg_id (fst mp), jr_message = msg_data (fst mp),
                     jr_part = map_option part_data (snd mp)\<rparr>"

definition entry_of :: "messages_row \<Rightarrow> store \<Rightarrow> MessageWithParts" where
  "entry_of m s =
     \<lparr>mwp_info = info_of (msg_data m),
      mwp_parts = map part_data (order_by part_id_asc (parts_of m s))\<rparr>"

text \<open>An operation whose payload has the type its TypeScript signature declares.\<close>

fun op_typed :: "op \<Rightarrow> bool" where
  "op_typed (WriteSession p) = is_SessionRecord p"
| "op_typed (WriteMessage m) = is_MessageRecord m"
| "op_typed (WriteParts sid mid ps) = list_all is_PartRecord ps"
| "op_typed _ = True"

text \<open>A store with two messages of one session: the later one has two parts, written in
  descending order of their ids, the earlier one has none.\<close>

definition two_messages_store :: store where
  "two_messages_store =
     fold apply_op
       [WriteMessage (message_record ''msg_0'' ''ses_1''),
        WriteMessage (message_record ''msg_1'' ''ses_1''),
        WriteParts ''ses_1'' ''msg_1'' [JObj [(''id'', JStr ''prt_2'')], JObj [(''id'', JStr ''prt_1'')]]]
       empty_store"

section \<open>Lemmas about the SQL operators\<close>

lemma set_insert_by: "set (insert_by le x xs) = insert x (set xs)"
  by (induction xs) auto

lemma order_by_Nil: "order_by le [] = []"
  by (simp add: order_by_def)

lemma order_by_Cons: "order_by le (x # xs) = insert_by le x (order_by le xs)"
  by (simp add: order_by_def)

lemma set_order_by: "set (order_by le xs) = set xs"
  by (induction xs) (auto simp: order_by_Nil order_by_Cons set_insert_by)

lemma length_insert_by: "length (insert_by le x xs) = Suc (length xs)"
  by (induction xs) auto

lemma length_order_by: "length (order_by le xs) = length xs"
  by (induction xs) (auto simp: order_by_Nil order_by_Cons length_insert_by)

lemma distinct_insert_by: "distinct (insert_by le x xs) \<longleftrightarrow> x \<notin> set xs \<and> distinct xs"
  by (induction xs) (auto simp: set_insert_by)

lemma distinct_order_by: "distinct (order_by le xs) \<longleftrightarrow> distinct xs"
  by (induction xs) (auto simp: order_by_Nil order_by_Cons distinct_insert_by set_order_by)

lemma mset_insert_by: "mset (insert_by le x xs) = add_mset x (mset xs)"
  by (induction xs) auto

lemma mset_order_by: "mset (order_by le xs) = mset xs"
  by (induction xs) (simp_all add: order_by_Nil order_by_Cons mset_insert_by)

lemma sorted_insert_by:
  assumes "total_order_on_rows le" "sorted_wrt le xs"
  shows "sorted_wrt le (insert_by le x xs)"
  using assms(2)
proof (induction xs)
  case Nil
  then show ?case by simp
next
  case (Cons y ys)
  from assms(1) have tot: "\<And>a b. le a b \<or> le b a"
    and tr: "\<And>a b c. le a b \<Longrightarrow> le b c \<Longrightarrow> le a c"
    unfolding total_order_on_rows_def by blast+
  show ?case
  proof (cases "le x y")
    case True
    with Cons.prems tr show ?thesis by auto
  next
    case False
    with tot have "le y x" by blast
    with Cons False show ?thesis by (auto simp: set_insert_by)
  qed
qed

lemma sorted_order_by: "total_order_on_rows le \<Longrightarrow> sorted_wrt le (order_by le xs)"
  by (induction xs) (auto simp: order_by_Nil order_by_Cons sorted_insert_by)

lemma insert_by_least: "\<forall>y\<in>set xs. le x y \<Longrightarrow> insert_by le x xs = x # xs"
  by (cases xs) auto

lemma order_by_sorted: "sorted_wrt le xs \<Longrightarrow> order_by le xs = xs"
  by (induction xs) (simp_all add: order_by_Nil order_by_Cons insert_by_least)

lemma filter_insert_by:
  assumes "total_order_on_rows le" "sorted_wrt le xs"
  shows "filter P (insert_by le x xs) =
           (if P x then insert_by le x (filter P xs) else filter P xs)"
  using assms(2)
proof (induction xs)
  case Nil
  then show ?case by simp
next
  case (Cons y ys)
  from assms(1) have tr: "\<And>a b c. le a b \<Longrightarrow> le b c \<Longrightarrow> le a c"
    unfolding total_order_on_rows_def by blast
  show ?case
  proof (cases "le x y")
    case True
    have "\<forall>z\<in>set (filter P ys). le x z"
      using Cons.prems True tr by auto
    then have "insert_by le x (filter P ys) = x # filter P ys"
      by (rule insert_by_least)
    with True show ?thesis by simp
  next
    case False
    with Cons show ?thesis by simp
  qed
qed

lemma filter_order_by:
  "total_order_on_rows le \<Longrightarrow> filter P (order_by le xs) = order_by le (filter P xs)"
  by (induction xs) (simp_all add: order_by_Nil order_by_Cons filter_insert_by sorted_order_by)

lemma map_insert_by:
  "(\<And>a b. le a b = le' (f a) (f b)) \<Longrightarrow>
     map f (insert_by le x xs) = insert_by le' (f x) (map f xs)"
  by (induction xs) auto

lemma map_order_by:
  "(\<And>a b. le a b = le' (f a) (f b)) \<Longrightarrow> map f (order_by le xs) = order_by le' (map f xs)"
  by (induction xs) (simp_all add: order_by_Nil order_by_Cons map_insert_by)

lemma sorted_wrt_unique:
  assumes "sorted_wrt le xs" "sorted_wrt le ys" "distinct xs" "distinct ys" "set xs = set ys"
    and "\<And>x y. x \<in> set xs \<Longrightarrow> y \<in> set xs \<Longrightarrow> le x y \<Longrightarrow> le y x \<Longrightarrow> x = y"
  shows "xs = ys"
  using assms
proof (induction xs arbitrary: ys)
  case Nil
  then show ?case by simp
next
  case (Cons x xs)
  then obtain y ys' where ys: "ys = y # ys'" by (cases ys) auto
  have "x = y"
  proof (rule ccontr)
    assume ne: "x \<noteq> y"
    with Cons.prems(5) ys have "x \<in> set ys'" "y \<in> set xs" by auto
    with Cons.prems(1,2) ys have "le y x" "le x y" by auto
    with Cons.prems(6)[of x y] ys \<open>y \<in> set xs\<close> ne show False by auto
  qed
  moreover have "set xs = set ys'"
    using Cons.prems(3,4,5) ys \<open>x = y\<close> by auto
  ultimately show ?case
    using Cons.IH[of ys'] Cons.prems ys by auto
qed

lemma order_by_desc_eq: "order_by (\<lambda>a b. b \<le> a) (xs::'a::linorder list) = rev (sort xs)"
proof -
  have t: "total_order_on_rows (\<lambda>a b::'a. b \<le> a)"
    unfolding total_order_on_rows_def by auto
  have "sorted_wrt (\<lambda>a b. b \<le> a) (order_by (\<lambda>a b. b \<le> a) xs)"
    by (rule sorted_order_by[OF t])
  then have "sorted (rev (order_by (\<lambda>a b. b \<le> a) xs))"
    by (simp add: sorted_wrt_rev)
  moreover have "mset (rev (order_by (\<lambda>a b. b \<le> a) xs)) = mset xs"
    by (simp add: mset_order_by)
  ultimately have "sort xs = rev (order_by (\<lambda>a b. b \<le> a) xs)"
    by (simp add: properties_for_sort)
  then show ?thesis by simp
qed

lemma is_object_truthy: "is_object v \<Longrightarrow> truthy v"
  by (cases v rule: is_object.cases) simp_all

lemma get_row_filter_insert_or_replace:
  "P r \<Longrightarrow> (\<And>x. P x \<Longrightarrow> key x = key r) \<Longrightarrow>
     get_row (filter P (insert_or_replace key r t)) = Some r"
proof -
  assume a: "P r" and b: "\<And>x. P x \<Longrightarrow> key x = key r"
  have "filter (\<lambda>x. key x \<noteq> key r \<and> P x) t = []"
    using b by (auto simp: filter_empty_conv)
  then show ?thesis using a unfolding insert_or_replace_def by simp
qed

section \<open>What removeSession leaves alone\<close>

text \<open>
  C10. \<^verbatim>\<open>removeSession(id)\<close> deletes from \<^verbatim>\<open>sessions\<close> and \<^verbatim>\<open>session_index\<close> only: the
  tables \<^verbatim>\<open>messages\<close>, \<^verbatim>\<open>message_parts\<close> and \<^verbatim>\<open>session_diff\<close> (and \<^verbatim>\<open>meta\<close>) are the
  same before and after, whatever rows of that session they hold. The rows of the session
  in those three tables go when the caller also runs \<^verbatim>\<open>removeMessages\<close> and
  \<^verbatim>\<open>removeDiff\<close>.
\<close>

theorem removeSession_frame:
  "messages (removeSession i s) = messages s \<and>
   message_parts (removeSession i s) = message_parts s \<and>
   session_diff (removeSession i s) = session_diff s \<and>
   meta (removeSession i s) = meta s \<and>
   sessions (removeSession i s) = filter (\<lambda>r. ses_id r \<noteq> i) (sessions s) \<and>
   session_index (removeSession i s) = filter (\<lambda>r. idx_id r \<noteq> i) (session_index s) \<and>
   filter (\<lambda>r. msg_sessionID r = i)
     (messages (removeDiff i (removeMessages i (removeSession i s)))) = [] \<and>
   filter (\<lambda>p. part_sessionID p = i)
     (message_parts (removeDiff i (removeMessages i (removeSession i s)))) = [] \<and>
   readDiff i (removeDiff i (removeMessages i (removeSession i s))) = None"
  by (simp add: removeSession_def removeSession_stmts_def run_all_def delete_session_def
      delete_session_index_def removeMessages_def removeMessages_stmts_def
      delete_session_messages_def delete_session_parts_def removeDiff_def readDiff_def)

section \<open>What writeMessage stores\<close>

text \<open>
  C9. For a \<^verbatim>\<open>MessageRecord\<close> whose \<^verbatim>\<open>info\<close> is present, \<^verbatim>\<open>writeMessage\<close> stores the
  object \<^verbatim>\<open>{info: input.info}\<close>: \<^verbatim>\<open>readMessage(info.sessionID, info.id)\<close> then returns
  that object, whose only top-level key is \<^verbatim>\<open>info\<close>, so every other top-level field of
  the input is gone. When \<^verbatim>\<open>info\<close> is absent, \<^verbatim>\<open>writeMessage\<close> changes nothing.
\<close>

theorem writeMessage_stores_info_only:
  "(is_MessageRecord input \<and> js_prop input ''info'' = Some info \<longrightarrow>
      readMessage (str_prop info ''sessionID'') (str_prop info ''id'') (writeMessage input s)
        = Some (JObj [(''info'', info)])) \<and>
   (js_prop input ''info'' = None \<longrightarrow> writeMessage input s = s)"
proof (intro conjI impI)
  assume a: "is_MessageRecord input \<and> js_prop input ''info'' = Some info"
  then have "is_object (Some info)" by (auto simp: is_MessageRecord_def)
  then have t: "truthy (Some info)" by (rule is_object_truthy)
  define r where "r = \<lparr>msg_id = str_prop info ''id'',
      msg_sessionID = str_prop info ''sessionID'',
      msg_created_at = number_or_null (opt_prop (js_prop info ''time'') ''created''),
      msg_data = JObj [(''info'', info)]\<rparr>"
  have "get_row (filter (\<lambda>x. msg_sessionID x = str_prop info ''sessionID'' \<and>
            msg_id x = str_prop info ''id'') (insert_or_replace msg_id r (messages s))) = Some r"
    by (rule get_row_filter_insert_or_replace) (simp_all add: r_def)
  then show "readMessage (str_prop info ''sessionID'') (str_prop info ''id'')
        (writeMessage input s) = Some (JObj [(''info'', info)])"
    using a t unfolding readMessage_def writeMessage_def
    by (simp add: r_def)
next
  assume "js_prop input ''info'' = None"
  then show "writeMessage input s = s" by (simp add: writeMessage_def)
qed

theorem writeMessage_stores_info_only_witness:
  "is_MessageRecord msg_example \<and>
   js_prop msg_example ''info'' = Some (JObj [(''id'', JStr ''m1''), (''sessionID'', JStr ''s1'')]) \<and>
   readMessage ''s1'' ''m1'' (writeMessage msg_example empty_store)
     = Some (JObj [(''info'', JObj [(''id'', JStr ''m1''), (''sessionID'', JStr ''s1'')])]) \<and>
   js_prop (JObj [(''parts'', JArr [])]) ''info'' = None \<and>
   writeMessage (JObj [(''parts'', JArr [])]) empty_store = empty_store"
  using writeMessage_stores_info_only[of msg_example
          "JObj [(''id'', JStr ''m1''), (''sessionID'', JStr ''s1'')]" empty_store]
        writeMessage_stores_info_only[of "JObj [(''parts'', JArr [])]" JNull empty_store]
  by (simp add: msg_example_def is_MessageRecord_def str_prop_def)

section \<open>Round trips\<close>

lemma run_all_Nil: "run_all [] s = s" by (simp add: run_all_def)
lemma run_all_Cons: "run_all (f # fs) s = run_all fs (f s)" by (simp add: run_all_def)

lemma sessions_writeSessionIndexWithDb: "sessions (writeSessionIndexWithDb x s) = sessions s"
  by (simp add: writeSessionIndexWithDb_def split: option.splits)

lemma readSession_writeSession: "readSession (str_prop x ''id'') (writeSession x s) = Some x"
proof -
  define r where "r = \<lparr>ses_id = str_prop x ''id'',
             ses_projectID = str_prop x ''projectID'',
             ses_parentID = string_or_null (js_prop x ''parentID''),
             ses_created_at = number_or_null (opt_prop (js_prop x ''time'') ''created''),
             ses_updated_at = number_or_null (opt_prop (js_prop x ''time'') ''updated''),
             ses_data = x\<rparr>"
  have "get_row (filter (\<lambda>y. ses_id y = str_prop x ''id'')
          (insert_or_replace ses_id r (sessions s))) = Some r"
    by (rule get_row_filter_insert_or_replace) (simp_all add: r_def)
  then show ?thesis
    by (simp add: readSession_def writeSession_def writeSession_stmts_def run_all_Cons run_all_Nil
        sessions_writeSessionIndexWithDb insert_session_def r_def)
qed

lemma readMessage_writeMessage:
  assumes "js_prop input ''info'' = Some info" "truthy (Some info)"
  shows "readMessage (str_prop info ''sessionID'') (str_prop info ''id'') (writeMessage input s)
           = Some (JObj [(''info'', info)])"
proof -
  define r where "r = \<lparr>msg_id = str_prop info ''id'',
      msg_sessionID = str_prop info ''sessionID'',
      msg_created_at = number_or_null (opt_prop (js_prop info ''time'') ''created''),
      msg_data = JObj [(''info'', info)]\<rparr>"
  have "get_row (filter (\<lambda>x. msg_sessionID x = str_prop info ''sessionID'' \<and>
            msg_id x = str_prop info ''id'') (insert_or_replace msg_id r (messages s))) = Some r"
    by (rule get_row_filter_insert_or_replace) (simp_all add: r_def)
  then show ?thesis
    using assms unfolding readMessage_def writeMessage_def by (simp add: r_def)
qed

lemma readDiff_writeDiff: "readDiff sid (writeDiff sid v s) = Some v"
proof -
  have "get_row (filter (\<lambda>x. diff_sessionID x = sid)
          (insert_or_replace diff_sessionID \<lparr>diff_sessionID = sid, diff_data = v\<rparr> (session_diff s)))
        = Some \<lparr>diff_sessionID = sid, diff_data = v\<rparr>"
    by (rule get_row_filter_insert_or_replace) simp_all
  then show ?thesis by (simp add: readDiff_def writeDiff_def)
qed

lemma parts_after_insert:
  "filter (\<lambda>p. part_sessionID p = sid \<and> part_messageID p = mid)
      (message_parts (insert_part sid mid part s))
   = filter (\<lambda>p. part_id p \<noteq> str_prop part ''id'')
      (filter (\<lambda>p. part_sessionID p = sid \<and> part_messageID p = mid) (message_parts s))
     @ [part_row sid mid part]"
  by (auto simp: insert_part_def insert_or_replace_def part_key_def part_row_def
      intro!: filter_cong)

lemma parts_after_writes:
  assumes "distinct (map (\<lambda>p. str_prop p ''id'') ps)"
  shows "filter (\<lambda>p. part_sessionID p = sid \<and> part_messageID p = mid)
      (message_parts (run_all (writeParts_stmts sid mid ps) s))
   = filter (\<lambda>p. part_id p \<notin> (\<lambda>p. str_prop p ''id'') ` set ps)
      (filter (\<lambda>p. part_sessionID p = sid \<and> part_messageID p = mid) (message_parts s))
     @ map (part_row sid mid) ps"
  using assms
proof (induction ps arbitrary: s)
  case Nil
  then show ?case by (simp add: writeParts_stmts_def run_all_Nil)
next
  case (Cons a ps)
  have d: "distinct (map (\<lambda>p. str_prop p ''id'') ps)" and
    n: "str_prop a ''id'' \<notin> (\<lambda>p. str_prop p ''id'') ` set ps"
    using Cons.prems by auto
  have "run_all (writeParts_stmts sid mid (a # ps)) s
        = run_all (writeParts_stmts sid mid ps) (insert_part sid mid a s)"
    by (simp add: writeParts_stmts_def run_all_Cons)
  then show ?case
    using Cons.IH[OF d, of "insert_part sid mid a s"] n
    by (auto simp: parts_after_insert part_row_def intro!: filter_cong)
qed

lemma readParts_writeParts:
  assumes "sorted_wrt (<) (map (\<lambda>p. str_prop p ''id'') ps)"
    and "filter (\<lambda>p. part_sessionID p = sid \<and> part_messageID p = mid) (message_parts s) = []"
  shows "readParts sid mid (writeParts sid mid ps s) = ps"
proof (cases "ps = []")
  case True
  with assms(2) show ?thesis by (simp add: readParts_def writeParts_def order_by_Nil)
next
  case False
  have d: "distinct (map (\<lambda>p. str_prop p ''id'') ps)"
    using assms(1) strict_sorted_iff by blast
  have f: "filter (\<lambda>p. part_sessionID p = sid \<and> part_messageID p = mid)
      (message_parts (run_all (writeParts_stmts sid mid ps) s)) = map (part_row sid mid) ps"
    using parts_after_writes[OF d, of sid mid s] assms(2) by simp
  have "sorted_wrt (\<le>) (map (\<lambda>p. str_prop p ''id'') ps)"
    using assms(1) strict_sorted_iff by blast
  then have "sorted_wrt (\<lambda>a b. part_id a \<le> part_id b) (map (part_row sid mid) ps)"
    by (simp add: sorted_wrt_map part_row_def)
  then have "order_by (\<lambda>a b. part_id a \<le> part_id b) (map (part_row sid mid) ps)
             = map (part_row sid mid) ps"
    by (rule order_by_sorted)
  with f False show ?thesis
    by (simp add: readParts_def writeParts_def part_row_def comp_def)
qed

text \<open>
  C1 (as stated). A write followed by the read of the same key returns a value deep-equal
  to the one written, for sessions, messages, parts and diffs. This fails for messages:
  \<^verbatim>\<open>writeMessage\<close> stores \<^verbatim>\<open>{info}\<close>, so a record with a second top-level field (the
  test suite writes \<^verbatim>\<open>parts: []\<close>) is not read back; and for parts: \<^verbatim>\<open>readParts\<close> orders
  by part id, so a list written in another order is not read back as written.
\<close>

theorem roundtrip_counterexample:
  "readMessage ''s1'' ''m1'' (writeMessage msg_example empty_store) \<noteq> Some msg_example \<and>
   readParts ''s1'' ''m1''
     (writeParts ''s1'' ''m1'' [JObj [(''id'', JStr ''p2'')], JObj [(''id'', JStr ''p1'')]] empty_store)
     \<noteq> [JObj [(''id'', JStr ''p2'')], JObj [(''id'', JStr ''p1'')]]"
  by (simp add: msg_example_def readMessage_def writeMessage_def empty_store_def
      insert_or_replace_def str_prop_def readParts_def writeParts_def writeParts_stmts_def
      run_all_def insert_part_def part_key_def order_by_def)

text \<open>
  C1 (amended). \<^verbatim>\<open>writeSession(s)\<close> then \<^verbatim>\<open>readSession(s.id)\<close> returns \<open>s\<close>, and
  \<^verbatim>\<open>writeDiff\<close> then \<^verbatim>\<open>readDiff\<close> returns the value written. \<^verbatim>\<open>writeMessage(m)\<close> then
  \<^verbatim>\<open>readMessage(m.info.sessionID, m.info.id)\<close> returns \<^verbatim>\<open>{info: m.info}\<close>.
  \<^verbatim>\<open>writeParts\<close> then \<^verbatim>\<open>readParts\<close> returns the list written when that list is strictly
  ascending by part id and the message had no part stored before.
\<close>

theorem roundtrip_amended:
  "(is_SessionRecord x \<longrightarrow> readSession (str_prop x ''id'') (writeSession x s) = Some x) \<and>
   (is_MessageRecord m \<and> js_prop m ''info'' = Some info \<longrightarrow>
      readMessage (str_prop info ''sessionID'') (str_prop info ''id'') (writeMessage m s)
        = Some (JObj [(''info'', info)])) \<and>
   ((\<forall>p\<in>set ps. is_PartRecord p) \<and>
    sorted_wrt (<) (map (\<lambda>p. str_prop p ''id'') ps) \<and>
    filter (\<lambda>p. part_sessionID p = sid \<and> part_messageID p = mid) (message_parts s) = [] \<longrightarrow>
      readParts sid mid (writeParts sid mid ps s) = ps) \<and>
   readDiff sid (writeDiff sid v s) = Some v"
proof (intro conjI impI)
  show "readSession (str_prop x ''id'') (writeSession x s) = Some x"
    by (rule readSession_writeSession)
next
  assume a: "is_MessageRecord m \<and> js_prop m ''info'' = Some info"
  then have "is_object (Some info)" by (auto simp: is_MessageRecord_def)
  then have "truthy (Some info)" by (rule is_object_truthy)
  with a show "readMessage (str_prop info ''sessionID'') (str_prop info ''id'')
      (writeMessage m s) = Some (JObj [(''info'', info)])"
    by (simp add: readMessage_writeMessage)
next
  assume "(\<forall>p\<in>set ps. is_PartRecord p) \<and>
    sorted_wrt (<) (map (\<lambda>p. str_prop p ''id'') ps) \<and>
    filter (\<lambda>p. part_sessionID p = sid \<and> part_messageID p = mid) (message_parts s) = []"
  then show "readParts sid mid (writeParts sid mid ps s) = ps"
    by (simp add: readParts_writeParts)
next
  show "readDiff sid (writeDiff sid v s) = Some v"
    by (rule readDiff_writeDiff)
qed

theorem roundtrip_amended_witness:
  "is_SessionRecord session_example \<and>
   readSession ''ses_1'' (writeSession session_example empty_store) = Some session_example \<and>
   is_MessageRecord msg_example \<and>
   readMessage ''s1'' ''m1'' (writeMessage msg_example empty_store)
     = Some (JObj [(''info'', JObj [(''id'', JStr ''m1''), (''sessionID'', JStr ''s1'')])]) \<and>
   readParts ''s1'' ''m1''
     (writeParts ''s1'' ''m1'' [JObj [(''id'', JStr ''p1'')], JObj [(''id'', JStr ''p2'')]]
        empty_store)
     = [JObj [(''id'', JStr ''p1'')], JObj [(''id'', JStr ''p2'')]] \<and>
   readDiff ''s1'' (writeDiff ''s1'' (JArr []) empty_store) = Some (JArr [])"
  using roundtrip_amended[where x = session_example and s = empty_store and m = msg_example
          and info = "JObj [(''id'', JStr ''m1''), (''sessionID'', JStr ''s1'')]"
          and ps = "[JObj [(''id'', JStr ''p1'')], JObj [(''id'', JStr ''p2'')]]"
          and sid = "''s1''" and mid = "''m1''" and v = "JArr []"]
  by (simp add: session_example_def msg_example_def is_SessionRecord_def is_MessageRecord_def
      is_PartRecord_def str_prop_def empty_store_def)

section \<open>Pages of message ids\<close>

lemma total_msg_id_desc: "total_order_on_rows msg_id_desc"
  unfolding total_order_on_rows_def msg_id_desc_def by auto

lemma ids_desc_eq:
  "session_message_ids_desc sid s =
     map msg_id (order_by msg_id_desc (filter (\<lambda>r. msg_sessionID r = sid) (messages s)))"
proof -
  have "map msg_id (order_by msg_id_desc (filter (\<lambda>r. msg_sessionID r = sid) (messages s)))
        = order_by (\<lambda>a b. b \<le> a) (map msg_id (filter (\<lambda>r. msg_sessionID r = sid) (messages s)))"
    by (rule map_order_by) (simp add: msg_id_desc_def)
  then show ?thesis
    by (simp add: session_message_ids_desc_def order_by_desc_eq)
qed

lemma ids_desc_below:
  "filter (\<lambda>i. i < a) (session_message_ids_desc sid s) =
     map msg_id (order_by msg_id_desc
       (filter (\<lambda>r. msg_sessionID r = sid \<and> msg_id r < a) (messages s)))"
  by (simp add: ids_desc_eq filter_map comp_def filter_order_by[OF total_msg_id_desc])

lemma listMessagesPage_window_aux:
  "listMessagesPage input s =
     window_page (truthy_string (ml_afterID input)) (bounded_limit (ml_limit input))
       (session_message_ids_desc (ml_sessionID input) s)"
proof (cases "truthy_string (ml_afterID input)")
  case None
  show ?thesis
  proof (cases "ml_limit input")
    case lim: None
    with None show ?thesis
      by (simp add: listMessagesPage_def window_page_def ids_desc_eq)
  next
    case lim: (Some n)
    with None show ?thesis
      by (simp add: listMessagesPage_def window_page_def ids_desc_eq sql_limit_def take_map)
  qed
next
  case (Some a)
  show ?thesis
  proof (cases "ml_limit input")
    case lim: None
    with Some show ?thesis
      by (simp add: listMessagesPage_def window_page_def ids_desc_below)
  next
    case lim: (Some n)
    with Some show ?thesis
      by (simp add: listMessagesPage_def window_page_def ids_desc_below sql_limit_def take_map)
  qed
qed

lemma messages_writeMessage:
  assumes "is_MessageRecord m"
    "opt_prop (js_prop m ''info'') ''id'' = Some (JStr i)"
    "opt_prop (js_prop m ''info'') ''sessionID'' = Some (JStr sid)"
  shows "\<exists>r. msg_id r = i \<and> msg_sessionID r = sid \<and>
           messages (writeMessage m s) = filter (\<lambda>x. msg_id x \<noteq> i) (messages s) @ [r]"
proof -
  from assms(1) obtain ivs where info: "js_prop m ''info'' = Some (JObj ivs)"
    unfolding is_MessageRecord_def by (cases "js_prop m ''info''" rule: is_object.cases) auto
  with assms(2,3) have "str_prop (JObj ivs) ''id'' = i" "str_prop (JObj ivs) ''sessionID'' = sid"
    by (simp_all add: str_prop_def)
  with info show ?thesis
    by (simp add: writeMessage_def insert_or_replace_def)
qed

lemma four_messages_ids:
  assumes m0: "is_MessageRecord m0" "opt_prop (js_prop m0 ''info'') ''id'' = Some (JStr i0)"
      "opt_prop (js_prop m0 ''info'') ''sessionID'' = Some (JStr sid)"
    and m1: "is_MessageRecord m1" "opt_prop (js_prop m1 ''info'') ''id'' = Some (JStr i1)"
      "opt_prop (js_prop m1 ''info'') ''sessionID'' = Some (JStr sid)"
    and m2: "is_MessageRecord m2" "opt_prop (js_prop m2 ''info'') ''id'' = Some (JStr i2)"
      "opt_prop (js_prop m2 ''info'') ''sessionID'' = Some (JStr sid)"
    and m3: "is_MessageRecord m3" "opt_prop (js_prop m3 ''info'') ''id'' = Some (JStr i3)"
      "opt_prop (js_prop m3 ''info'') ''sessionID'' = Some (JStr sid)"
    and asc: "i0 < i1" "i1 < i2" "i2 < i3"
    and fresh: "filter (\<lambda>r. msg_sessionID r = sid) (messages s) = []"
  shows "map msg_id (filter (\<lambda>r. msg_sessionID r = sid)
           (messages (writeMessage m3 (writeMessage m2 (writeMessage m1 (writeMessage m0 s))))))
         = [i0, i1, i2, i3]"
proof -
  from fresh have fr: "\<forall>r\<in>set (messages s). msg_sessionID r \<noteq> sid"
    by (simp add: filter_empty_conv)
  from asc have ne: "i0 \<noteq> i1" "i0 \<noteq> i2" "i0 \<noteq> i3" "i1 \<noteq> i2" "i1 \<noteq> i3" "i2 \<noteq> i3"
    by auto
  obtain r0 where r0: "msg_id r0 = i0" "msg_sessionID r0 = sid"
    "messages (writeMessage m0 s) = filter (\<lambda>x. msg_id x \<noteq> i0) (messages s) @ [r0]"
    using messages_writeMessage[OF m0] by blast
  obtain r1 where r1: "msg_id r1 = i1" "msg_sessionID r1 = sid"
    "messages (writeMessage m1 (writeMessage m0 s))
       = filter (\<lambda>x. msg_id x \<noteq> i1) (messages (writeMessage m0 s)) @ [r1]"
    using messages_writeMessage[OF m1] by blast
  obtain r2 where r2: "msg_id r2 = i2" "msg_sessionID r2 = sid"
    "messages (writeMessage m2 (writeMessage m1 (writeMessage m0 s)))
       = filter (\<lambda>x. msg_id x \<noteq> i2) (messages (writeMessage m1 (writeMessage m0 s))) @ [r2]"
    using messages_writeMessage[OF m2] by blast
  obtain r3 where r3: "msg_id r3 = i3" "msg_sessionID r3 = sid"
    "messages (writeMessage m3 (writeMessage m2 (writeMessage m1 (writeMessage m0 s))))
       = filter (\<lambda>x. msg_id x \<noteq> i3)
           (messages (writeMessage m2 (writeMessage m1 (writeMessage m0 s)))) @ [r3]"
    using messages_writeMessage[OF m3] by blast
  show ?thesis
    using ne fr by (simp add: r0 r1 r2 r3 filter_empty_conv)
qed

lemma four_messages_store_messages:
  "map msg_id (filter (\<lambda>r. msg_sessionID r = ''ses_1'') (messages four_messages_store))
     = [''msg_0'', ''msg_1'', ''msg_2'', ''msg_3'']"
  unfolding four_messages_store_def
  by (rule four_messages_ids)
     (simp_all add: message_record_def is_MessageRecord_def empty_store_def)

text \<open>
  C2 (as stated). For every afterID and limit, \<^verbatim>\<open>listMessagesPage\<close> returns the
  descending id list of the session, cut to the ids below afterID when a cursor is given
  and to limit ids when a limit is given. With the cursor \<^verbatim>\<open>""\<close> the statement asks for
  no id (none is below the empty string), and the code returns all of them; with
  the limit \<^verbatim>\<open>-1\<close> the code returns all of them as well.
\<close>

theorem listMessagesPage_counterexample:
  "listMessagesPage \<lparr>ml_sessionID = ''ses_1'', ml_limit = None, ml_afterID = Some []\<rparr>
     four_messages_store = [''msg_3'', ''msg_2'', ''msg_1'', ''msg_0''] \<and>
   window_page (Some []) None (session_message_ids_desc ''ses_1'' four_messages_store) = [] \<and>
   listMessagesPage \<lparr>ml_sessionID = ''ses_1'', ml_limit = Some (- 1), ml_afterID = None\<rparr>
     four_messages_store = [''msg_3'', ''msg_2'', ''msg_1'', ''msg_0''] \<and>
   window_page None (Some (- 1)) (session_message_ids_desc ''ses_1'' four_messages_store) = []"
  by (simp add: listMessagesPage_window_aux window_page_def session_message_ids_desc_def
      four_messages_store_messages)

text \<open>
  C2 (amended). For every afterID and limit, \<^verbatim>\<open>listMessagesPage\<close> returns the descending
  id list of the session, cut to the ids strictly below afterID when afterID is a
  non-empty string, then to the first limit ids when limit is given and not negative. An
  empty afterID counts as no cursor and a negative limit as no limit. In particular, after
  four messages with ascending ids are written to a session that had none,
  \<^verbatim>\<open>{limit: 2}\<close> gives the two greatest ids, \<^verbatim>\<open>{limit: 2, afterID: m2}\<close> gives the two
  least, and \<^verbatim>\<open>countMessages\<close> is 4.
\<close>

theorem listMessagesPage_window:
  "listMessagesPage input s =
     window_page (truthy_string (ml_afterID input)) (bounded_limit (ml_limit input))
       (session_message_ids_desc (ml_sessionID input) s) \<and>
   (is_MessageRecord m0 \<and> opt_prop (js_prop m0 ''info'') ''id'' = Some (JStr i0) \<and>
      opt_prop (js_prop m0 ''info'') ''sessionID'' = Some (JStr sid) \<and>
    is_MessageRecord m1 \<and> opt_prop (js_prop m1 ''info'') ''id'' = Some (JStr i1) \<and>
      opt_prop (js_prop m1 ''info'') ''sessionID'' = Some (JStr sid) \<and>
    is_MessageRecord m2 \<and> opt_prop (js_prop m2 ''info'') ''id'' = Some (JStr i2) \<and>
      opt_prop (js_prop m2 ''info'') ''sessionID'' = Some (JStr sid) \<and>
    is_MessageRecord m3 \<and> opt_prop (js_prop m3 ''info'') ''id'' = Some (JStr i3) \<and>
      opt_prop (js_prop m3 ''info'') ''sessionID'' = Some (JStr sid) \<and>
    i0 < i1 \<and> i1 < i2 \<and> i2 < i3 \<and>
    filter (\<lambda>r. msg_sessionID r = sid) (messages s0) = [] \<and>
    s4 = writeMessage m3 (writeMessage m2 (writeMessage m1 (writeMessage m0 s0))) \<longrightarrow>
      listMessagesPage \<lparr>ml_sessionID = sid, ml_limit = Some 2, ml_afterID = None\<rparr> s4
        = [i3, i2] \<and>
      listMessagesPage \<lparr>ml_sessionID = sid, ml_limit = Some 2, ml_afterID = Some i2\<rparr> s4
        = [i1, i0] \<and>
      countMessages sid s4 = 4)"
proof (intro conjI impI)
  show "listMessagesPage input s =
     window_page (truthy_string (ml_afterID input)) (bounded_limit (ml_limit input))
       (session_message_ids_desc (ml_sessionID input) s)"
    by (rule listMessagesPage_window_aux)
next
  assume a: "is_MessageRecord m0 \<and> opt_prop (js_prop m0 ''info'') ''id'' = Some (JStr i0) \<and>
      opt_prop (js_prop m0 ''info'') ''sessionID'' = Some (JStr sid) \<and>
    is_MessageRecord m1 \<and> opt_prop (js_prop m1 ''info'') ''id'' = Some (JStr i1) \<and>
      opt_prop (js_prop m1 ''info'') ''sessionID'' = Some (JStr sid) \<and>
    is_MessageRecord m2 \<and> opt_prop (js_prop m2 ''info'') ''id'' = Some (JStr i2) \<and>
      opt_prop (js_prop m2 ''info'') ''sessionID'' = Some (JStr sid) \<and>
    is_MessageRecord m3 \<and> opt_prop (js_prop m3 ''info'') ''id'' = Some (JStr i3) \<and>
      opt_prop (js_prop m3 ''info'') ''sessionID'' = Some (JStr sid) \<and>
    i0 < i1 \<and> i1 < i2 \<and> i2 < i3 \<and>
    filter (\<lambda>r. msg_sessionID r = sid) (messages s0) = [] \<and>
    s4 = writeMessage m3 (writeMessage m2 (writeMessage m1 (writeMessage m0 s0)))"
  then have ids: "map msg_id (filter (\<lambda>r. msg_sessionID r = sid) (messages s4)) = [i0, i1, i2, i3]"
    using four_messages_ids[of m0 i0 sid m1 i1 m2 i2 m3 i3 s0] by simp
  from a have asc: "i0 < i1" "i1 < i2" "i2 < i3" by simp_all
  then have "sorted [i0, i1, i2, i3]" by auto
  then have "sort [i0, i1, i2, i3] = [i0, i1, i2, i3]" by (rule sorted_sort_id)
  with ids have desc: "session_message_ids_desc sid s4 = [i3, i2, i1, i0]"
    by (simp add: session_message_ids_desc_def)
  from asc have ne: "i2 \<noteq> []" by auto
  show "listMessagesPage \<lparr>ml_sessionID = sid, ml_limit = Some 2, ml_afterID = None\<rparr> s4
        = [i3, i2]"
    by (simp add: listMessagesPage_window_aux window_page_def desc)
  show "listMessagesPage \<lparr>ml_sessionID = sid, ml_limit = Some 2, ml_afterID = Some i2\<rparr> s4
        = [i1, i0]"
    using asc ne by (auto simp: listMessagesPage_window_aux window_page_def desc)
  have "length (map msg_id (filter (\<lambda>r. msg_sessionID r = sid) (messages s4))) = 4"
    by (simp only: ids) simp
  then show "countMessages sid s4 = 4"
    by (simp add: countMessages_def)
qed

theorem listMessagesPage_window_witness:
  "is_MessageRecord (message_record ''msg_0'' ''ses_1'') \<and>
   opt_prop (js_prop (message_record ''msg_0'' ''ses_1'') ''info'') ''id'' = Some (JStr ''msg_0'') \<and>
   (''msg_0''::string) < ''msg_1'' \<and> (''msg_1''::string) < ''msg_2'' \<and>
   (''msg_2''::string) < ''msg_3'' \<and>
   filter (\<lambda>r. msg_sessionID r = ''ses_1'') (messages empty_store) = [] \<and>
   listMessagesPage \<lparr>ml_sessionID = ''ses_1'', ml_limit = Some 2, ml_afterID = None\<rparr>
     four_messages_store = [''msg_3'', ''msg_2''] \<and>
   listMessagesPage \<lparr>ml_sessionID = ''ses_1'', ml_limit = Some 2, ml_afterID = Some ''msg_2''\<rparr>
     four_messages_store = [''msg_1'', ''msg_0''] \<and>
   countMessages ''ses_1'' four_messages_store = 4"
  using listMessagesPage_window[where ?m0.0 = "message_record ''msg_0'' ''ses_1''"
      and ?m1.0 = "message_record ''msg_1'' ''ses_1''"
      and ?m2.0 = "message_record ''msg_2'' ''ses_1''"
      and ?m3.0 = "message_record ''msg_3'' ''ses_1''"
      and ?i0.0 = "''msg_0''" and ?i1.0 = "''msg_1''" and ?i2.0 = "''msg_2''"
      and ?i3.0 = "''msg_3''" and sid = "''ses_1''" and ?s0.0 = empty_store
      and ?s4.0 = four_messages_store and s = empty_store
      and input = "\<lparr>ml_sessionID = ''ses_1'', ml_limit = None, ml_afterID = None\<rparr>"]
  by (simp add: message_record_def is_MessageRecord_def empty_store_def four_messages_store_def)

section \<open>The session index\<close>

lemma null_less_cases:
  "null_less a b \<or> a = b \<or> null_less b a"
  by (cases a; cases b) auto

lemma null_less_trans: "null_less a b \<Longrightarrow> null_less b c \<Longrightarrow> null_less a c"
  by (cases a; cases b; cases c) auto

lemma null_less_irrefl: "\<not> null_less a a"
  by (cases a) auto

lemma total_index_order: "total_order_on_rows index_order"
  unfolding total_order_on_rows_def index_order_def
proof (intro conjI allI impI)
  fix x y :: SessionIndexRecord
  show "(null_less (idx_updated_at y) (idx_updated_at x) \<or>
          idx_updated_at x = idx_updated_at y \<and> idx_id y \<le> idx_id x) \<or>
         (null_less (idx_updated_at x) (idx_updated_at y) \<or>
          idx_updated_at y = idx_updated_at x \<and> idx_id x \<le> idx_id y)"
    using null_less_cases[of "idx_updated_at x" "idx_updated_at y"] by auto
next
  fix x y z :: SessionIndexRecord
  assume "null_less (idx_updated_at y) (idx_updated_at x) \<or>
          idx_updated_at x = idx_updated_at y \<and> idx_id y \<le> idx_id x"
    and "null_less (idx_updated_at z) (idx_updated_at y) \<or>
          idx_updated_at y = idx_updated_at z \<and> idx_id z \<le> idx_id y"
  then show "null_less (idx_updated_at z) (idx_updated_at x) \<or>
          idx_updated_at x = idx_updated_at z \<and> idx_id z \<le> idx_id x"
    using null_less_trans[of "idx_updated_at z" "idx_updated_at y" "idx_updated_at x"]
    by auto
qed

lemma metaGet_metaSet: "metaGet k (metaSet k v s) = Some v"
proof -
  have "get_row (filter (\<lambda>row. fst row = k) (insert_or_replace fst (k, v) (meta s))) = Some (k, v)"
    by (rule get_row_filter_insert_or_replace) simp_all
  then show ?thesis by (simp add: metaGet_def metaSet_def)
qed

lemma ensureSessionIndex_seeded:
  "metaGet ''session-index-seeded'' (ensureSessionIndex s) \<noteq> None \<and>
   metaGet ''session-index-seeded'' (ensureSessionIndex s) \<noteq> Some []"
  by (auto simp: ensureSessionIndex_def Let_def metaGet_metaSet)

lemma ensureSessionIndex_when_seeded:
  "metaGet ''session-index-seeded'' s \<noteq> None \<Longrightarrow> metaGet ''session-index-seeded'' s \<noteq> Some []
     \<Longrightarrow> ensureSessionIndex s = s"
  by (simp add: ensureSessionIndex_def)

lemma ensureSessionIndex_idem: "ensureSessionIndex (ensureSessionIndex s) = ensureSessionIndex s"
  using ensureSessionIndex_seeded[of s] by (simp add: ensureSessionIndex_when_seeded)

lemma meta_writeSessionIndexWithDb: "meta (writeSessionIndexWithDb p s) = meta s"
  by (simp add: writeSessionIndexWithDb_def split: option.splits)

lemma meta_writeSession: "meta (writeSession p s) = meta s"
  by (simp add: writeSession_def writeSession_stmts_def run_all_Cons run_all_Nil
      meta_writeSessionIndexWithDb insert_session_def)

lemma metaGet_cong: "meta s = meta s' \<Longrightarrow> metaGet k s = metaGet k s'"
  by (simp add: metaGet_def)

lemma ensure_after_write:
  "ensureSessionIndex (writeSession p (ensureSessionIndex s)) = writeSession p (ensureSessionIndex s)"
proof -
  have "metaGet ''session-index-seeded'' (writeSession p (ensureSessionIndex s))
        = metaGet ''session-index-seeded'' (ensureSessionIndex s)"
    by (rule metaGet_cong) (rule meta_writeSession)
  with ensureSessionIndex_seeded[of s] show ?thesis
    by (simp add: ensureSessionIndex_when_seeded)
qed

lemma get_row_filter_upsert:
  "get_row (filter (\<lambda>x. key x = key r) (upsert key r t)) = Some r"
proof (cases "key r \<in> key ` set t")
  case True
  have "\<And>t. key r \<in> key ` set t \<Longrightarrow>
     get_row (filter (\<lambda>x. key x = key r) (map (\<lambda>x. if key x = key r then r else x) t)) = Some r"
  proof -
    fix t show "key r \<in> key ` set t \<Longrightarrow>
     get_row (filter (\<lambda>x. key x = key r) (map (\<lambda>x. if key x = key r then r else x) t)) = Some r"
      by (induction t) auto
  qed
  with True show ?thesis by (simp add: upsert_def)
next
  case False
  have "\<forall>x\<in>set t. key x \<noteq> key r"
  proof (intro ballI notI)
    fix x assume "x \<in> set t" "key x = key r"
    then have "key r \<in> key ` set t" by (metis imageI)
    with False show False by simp
  qed
  then have "filter (\<lambda>x. key x = key r) t = []"
    by (simp add: filter_empty_conv)
  with False show ?thesis by (simp add: upsert_def)
qed

lemma filter_overwrite_other:
  "j \<noteq> key r \<Longrightarrow>
     filter (\<lambda>x. key x = j) (map (\<lambda>x. if key x = key r then r else x) t)
       = filter (\<lambda>x. key x = j) t"
  by (induction t) auto

lemma filter_upsert_other:
  "j \<noteq> key r \<Longrightarrow> filter (\<lambda>x. key x = j) (upsert key r t) = filter (\<lambda>x. key x = j) t"
  by (simp add: upsert_def filter_overwrite_other)

lemma idx_id_sessionIndexRow: "sessionIndexRow p = Some r \<Longrightarrow> idx_id r = str_prop p ''id''"
  by (auto simp: sessionIndexRow_def Let_def split: if_splits)

lemma session_index_writeSession:
  "session_index (writeSession p s) =
     (case sessionIndexRow p of None \<Rightarrow> session_index s
      | Some r \<Rightarrow> upsert idx_id r (session_index s))"
  by (simp add: writeSession_def writeSession_stmts_def run_all_Cons run_all_Nil
      writeSessionIndexWithDb_def insert_session_def split: option.splits)

lemma index_row_of_writeSession:
  assumes "sessionIndexRow p = Some r"
  shows "index_row_of (str_prop p ''id'') (writeSession p s) = Some r"
  using assms get_row_filter_upsert[of idx_id r "session_index s"]
  by (simp add: index_row_of_def session_index_writeSession idx_id_sessionIndexRow)

lemma readSessionIndexRow_seeded:
  "readSessionIndexRow i (ensureSessionIndex s) =
     (index_row_of i (ensureSessionIndex s), ensureSessionIndex s)"
  by (simp add: readSessionIndexRow_def index_row_of_def ensureSessionIndex_idem Let_def)

lemma in_set_upsert: "r \<in> set (upsert key r t)"
proof (cases "key r \<in> key ` set t")
  case True
  then obtain x where "x \<in> set t" "key x = key r" by (metis imageE)
  then have "r \<in> (\<lambda>x. if key x = key r then r else x) ` set t" by force
  with True show ?thesis by (simp add: upsert_def)
next
  case False
  then show ?thesis by (simp add: upsert_def)
qed

lemma idx_projectID_sessionIndexRow:
  "sessionIndexRow p = Some r \<Longrightarrow> idx_projectID r = str_prop p ''projectID''"
  by (auto simp: sessionIndexRow_def Let_def split: if_splits)

lemma listSessionIndex_all_of_project:
  "fst (listSessionIndex (all_of_project pid) s) =
     order_by index_order
       (filter (\<lambda>r. idx_projectID r = pid) (session_index (ensureSessionIndex s)))"
  by (simp add: listSessionIndex_def all_of_project_def Let_def)

lemma list_all_case_option:
  "list_all P (case x of None \<Rightarrow> [] | Some v \<Rightarrow> [f v]) = (case x of None \<Rightarrow> True | Some v \<Rightarrow> P (f v))"
  by (cases x) simp_all

lemma cursor_step:
  "(case c of None \<Rightarrow> (c2, ensureSessionIndex s)
    | Some a \<Rightarrow>
        (case readSessionIndexRow a (ensureSessionIndex s) of
           (None, s') \<Rightarrow> (c2, s')
         | (Some after, s') \<Rightarrow> (c2 @ [cl after], s')))
   = (c2 @ (case (case c of None \<Rightarrow> None | Some a \<Rightarrow> index_row_of a (ensureSessionIndex s)) of
              None \<Rightarrow> [] | Some after \<Rightarrow> [cl after]),
      ensureSessionIndex s)"
  by (simp add: readSessionIndexRow_seeded split: option.splits)

lemma listSessionIndex_unfold:
  "listSessionIndex q s =
     (limit_rows (q_limit q) (order_by index_order
        (filter (\<lambda>r.
           (idx_projectID r = q_projectID q \<and>
            (case q_start q of None \<Rightarrow> True
             | Some start \<Rightarrow> (case idx_updated_at r of None \<Rightarrow> False | Some u \<Rightarrow> start \<le> u))) \<and>
           (case (case truthy_string (q_afterID q) of None \<Rightarrow> None
                  | Some a \<Rightarrow> index_row_of a (ensureSessionIndex s)) of
              None \<Rightarrow> True
            | Some after \<Rightarrow> cursor_clause (cursor_of after) (idx_id after) r) \<and>
           (case truthy_string (q_search q) of None \<Rightarrow> True
            | Some search \<Rightarrow> sql_like (''%'' @ search @ ''%'') (idx_title r)) \<and>
           (case truthy_string (q_directory q) of None \<Rightarrow> True
            | Some d \<Rightarrow> idx_directory r = d) \<and>
           (if \<not> (case q_includeArchived q of None \<Rightarrow> True | Some b \<Rightarrow> b)
            then idx_archived_at r = None else True))
          (session_index (ensureSessionIndex s)))), ensureSessionIndex s)"
  unfolding listSessionIndex_def Let_def cursor_step limit_rows_def[symmetric]
  by (simp add: list_all_case_option)

lemma fst_readSessionIndexRow:
  "fst (readSessionIndexRow a s) = index_row_of a (ensureSessionIndex s)"
  by (simp add: readSessionIndexRow_def Let_def index_row_of_def)

lemma index_row_of_id: "index_row_of a s = Some r \<Longrightarrow> idx_id r = a"
proof -
  assume "index_row_of a s = Some r"
  then have "r \<in> set (filter (\<lambda>x. idx_id x = a) (session_index s))"
    unfolding index_row_of_def
    by (cases "filter (\<lambda>x. idx_id x = a) (session_index s)") auto
  then show ?thesis by simp
qed

lemma session_record_props:
  "str_prop (session_record i projectID title directory t) ''id'' = i"
  "str_prop (session_record i projectID title directory t) ''projectID'' = projectID"
  "is_SessionRecord (session_record i projectID title directory t)"
  by (simp_all add: session_record_def str_prop_def is_SessionRecord_def)

lemma sessionIndexRow_session_record:
  "title \<noteq> [] \<Longrightarrow> directory \<noteq> [] \<Longrightarrow>
     sessionIndexRow (session_record i projectID title directory t)
       = Some (index_record i projectID title directory t)"
  by (simp add: sessionIndexRow_def session_record_def index_record_def sessionIndexData_def
      str_prop_def number_or_zero_def)

lemma idx_id_index_record: "idx_id (index_record i projectID title directory t) = i"
  by (simp add: index_record_def)

lemma session_index_three:
  "session_index three_sessions_store =
     [index_record ''ses_1'' ''project_1'' ''First'' ''/repo/a'' 1000,
      index_record ''ses_2'' ''project_1'' ''Second'' ''/repo/b'' 2000,
      index_record ''ses_3'' ''project_1'' ''Third'' ''/repo/a'' 3000]"
  by (simp add: three_sessions_store_def session_index_writeSession
      sessionIndexRow_session_record upsert_def empty_store_def idx_id_index_record)

lemma sessions_writeSession:
  "sessions (writeSession p s) = insert_or_replace ses_id
            \<lparr>ses_id = str_prop p ''id'',
             ses_projectID = str_prop p ''projectID'',
             ses_parentID = string_or_null (js_prop p ''parentID''),
             ses_created_at = number_or_null (opt_prop (js_prop p ''time'') ''created''),
             ses_updated_at = number_or_null (opt_prop (js_prop p ''time'') ''updated''),
             ses_data = p\<rparr> (sessions s)"
  by (simp add: writeSession_def writeSession_stmts_def run_all_Cons run_all_Nil
      sessions_writeSessionIndexWithDb insert_session_def)

lemma session_data_three:
  "map ses_data (sessions three_sessions_store) =
     [session_record ''ses_1'' ''project_1'' ''First'' ''/repo/a'' 1000,
      session_record ''ses_2'' ''project_1'' ''Second'' ''/repo/b'' 2000,
      session_record ''ses_3'' ''project_1'' ''Third'' ''/repo/a'' 3000]"
  by (simp add: three_sessions_store_def sessions_writeSession session_record_props
      insert_or_replace_def empty_store_def)

lemma meta_three: "meta three_sessions_store = []"
  by (simp add: three_sessions_store_def meta_writeSession empty_store_def)

lemma session_index_fold_writeSessionIndex:
  "session_index (fold (\<lambda>session st. writeSessionIndex session st) ps s) =
     fold (\<lambda>p t. case sessionIndexRow p of None \<Rightarrow> t | Some r \<Rightarrow> upsert idx_id r t) ps
       (session_index s)"
  by (induction ps arbitrary: s)
     (simp_all add: writeSessionIndex_def writeSessionIndexWithDb_def split: option.splits)

lemma session_index_metaSet: "session_index (metaSet k v s) = session_index s"
  by (simp add: metaSet_def)

lemma session_index_writeSessionIndex:
  "session_index (writeSessionIndex p s) =
     (case sessionIndexRow p of None \<Rightarrow> session_index s
      | Some r \<Rightarrow> upsert idx_id r (session_index s))"
  by (simp add: writeSessionIndex_def writeSessionIndexWithDb_def split: option.splits)

lemma ensure_three_sessions_store:
  "session_index (ensureSessionIndex three_sessions_store) = session_index three_sessions_store"
  by (simp add: ensureSessionIndex_def metaGet_def meta_three Let_def session_index_metaSet
      session_index_writeSessionIndex session_data_three session_index_three
      sessionIndexRow_session_record upsert_def idx_id_index_record)

lemma q_limit_all_of_project: "q_limit (all_of_project p) = None"
  by (simp add: all_of_project_def)

lemma listing_three:
  "fst (listSessionIndex (all_of_project ''project_1'') three_sessions_store) =
     [index_record ''ses_3'' ''project_1'' ''Third'' ''/repo/a'' 3000,
      index_record ''ses_2'' ''project_1'' ''Second'' ''/repo/b'' 2000,
      index_record ''ses_1'' ''project_1'' ''First'' ''/repo/a'' 1000]"
  by (simp add: listSessionIndex_all_of_project ensure_three_sessions_store session_index_three
      order_by_def index_order_def index_record_def)

text \<open>
  C5. \<^verbatim>\<open>ensureSessionIndex\<close> is idempotent: run twice it leaves the store that one run
  leaves. Once it has run, a session written with \<^verbatim>\<open>writeSession\<close> that derives an index
  row is returned by \<^verbatim>\<open>readSessionIndexRow\<close> and by the listing of its project, and the
  read leaves the store as it is: the flag is set, so \<^verbatim>\<open>ensureSessionIndex\<close> after the
  write changes nothing.
\<close>

theorem ensureSessionIndex_idempotent:
  "ensureSessionIndex (ensureSessionIndex s) = ensureSessionIndex s \<and>
   (is_SessionRecord p \<and> sessionIndexRow p = Some r \<longrightarrow>
      readSessionIndexRow (str_prop p ''id'') (writeSession p (ensureSessionIndex s))
        = (Some r, writeSession p (ensureSessionIndex s)) \<and>
      r \<in> set (fst (listSessionIndex (all_of_project (str_prop p ''projectID''))
                      (writeSession p (ensureSessionIndex s))))) \<and>
   ensureSessionIndex (writeSession p (ensureSessionIndex s))
     = writeSession p (ensureSessionIndex s)"
proof (intro conjI impI)
  show "ensureSessionIndex (ensureSessionIndex s) = ensureSessionIndex s"
    by (rule ensureSessionIndex_idem)
  show e: "ensureSessionIndex (writeSession p (ensureSessionIndex s))
     = writeSession p (ensureSessionIndex s)"
    by (rule ensure_after_write)
  assume a: "is_SessionRecord p \<and> sessionIndexRow p = Some r"
  then have r: "sessionIndexRow p = Some r" by simp
  show "readSessionIndexRow (str_prop p ''id'') (writeSession p (ensureSessionIndex s))
        = (Some r, writeSession p (ensureSessionIndex s))"
    using index_row_of_writeSession[OF r, of "ensureSessionIndex s"]
    by (simp add: readSessionIndexRow_def Let_def e index_row_of_def)
  have "r \<in> set (session_index (writeSession p (ensureSessionIndex s)))"
    using r by (simp add: session_index_writeSession in_set_upsert)
  then show "r \<in> set (fst (listSessionIndex (all_of_project (str_prop p ''projectID''))
                      (writeSession p (ensureSessionIndex s))))"
    using idx_projectID_sessionIndexRow[OF r]
    by (simp add: listSessionIndex_all_of_project e set_order_by)
qed

theorem ensureSessionIndex_idempotent_witness:
  "is_SessionRecord (session_record ''ses_1'' ''project_1'' ''First'' ''/repo/a'' 1000) \<and>
   sessionIndexRow (session_record ''ses_1'' ''project_1'' ''First'' ''/repo/a'' 1000)
     = Some (index_record ''ses_1'' ''project_1'' ''First'' ''/repo/a'' 1000) \<and>
   fst (readSessionIndexRow ''ses_1''
     (writeSession (session_record ''ses_1'' ''project_1'' ''First'' ''/repo/a'' 1000)
        (ensureSessionIndex empty_store)))
     = Some (index_record ''ses_1'' ''project_1'' ''First'' ''/repo/a'' 1000) \<and>
   index_record ''ses_1'' ''project_1'' ''First'' ''/repo/a'' 1000
     \<in> set (fst (listSessionIndex (all_of_project ''project_1'')
         (writeSession (session_record ''ses_1'' ''project_1'' ''First'' ''/repo/a'' 1000)
            (ensureSessionIndex empty_store))))"
  using ensureSessionIndex_idempotent[of empty_store
      "session_record ''ses_1'' ''project_1'' ''First'' ''/repo/a'' 1000"
      "index_record ''ses_1'' ''project_1'' ''First'' ''/repo/a'' 1000"]
  by (simp add: session_record_props sessionIndexRow_session_record)

text \<open>
  C3. In a call of \<^verbatim>\<open>listSessionIndex\<close> with an afterID that is the id of an index row,
  the result is the listing without cursor (the rows matching the other filters, in
  order), cut to the rows strictly below the cursor: \<^verbatim>\<open>updated_at\<close> (0 when null) less
  than the cursor value, or equal to it with a smaller id; the cursor value is the cursor
  row's \<^verbatim>\<open>updated_at\<close>, else its \<^verbatim>\<open>created_at\<close>, else 0; the limit then applies. When
  afterID is the id of no index row the call returns what the call without afterID
  returns. Identifiers are not empty: the empty string is taken to be the id of no row.
\<close>

theorem listSessionIndex_cursor:
  assumes "q_afterID q = Some a"
    and "a \<noteq> [] \<or> fst (readSessionIndexRow a s) = None"
  shows
   "(fst (readSessionIndexRow a s) = Some after \<longrightarrow>
       idx_id after = a \<and>
       (let cursorUpdatedAt =
              (case idx_updated_at after of
                 Some u \<Rightarrow> u
               | None \<Rightarrow> (case idx_created_at after of Some c \<Rightarrow> c | None \<Rightarrow> 0))
        in fst (listSessionIndex q s) =
             limit_rows (q_limit q)
               (filter (\<lambda>r. coalesce0 (idx_updated_at r) < cursorUpdatedAt \<or>
                             (coalesce0 (idx_updated_at r) = cursorUpdatedAt \<and>
                              idx_id r < idx_id after))
                  (fst (listSessionIndex (q\<lparr>q_afterID := None, q_limit := None\<rparr>) s))))) \<and>
    (fst (readSessionIndexRow a s) = None \<longrightarrow>
       listSessionIndex q s = listSessionIndex (q\<lparr>q_afterID := None\<rparr>) s)"
proof (intro conjI impI)
  assume r: "fst (readSessionIndexRow a s) = Some after"
  then have ix: "index_row_of a (ensureSessionIndex s) = Some after"
    by (simp add: fst_readSessionIndexRow)
  then show "idx_id after = a" by (rule index_row_of_id)
  from r assms(2) have "a \<noteq> []" by auto
  with assms(1) have t: "truthy_string (q_afterID q) = Some a" by simp
  have c: "cursor_clause (cursor_of after) (idx_id after) =
     (\<lambda>r. coalesce0 (idx_updated_at r) < cursor_of after \<or>
            (coalesce0 (idx_updated_at r) = cursor_of after \<and> idx_id r < idx_id after))"
    by (rule ext) (simp add: cursor_clause_def)
  show "let cursorUpdatedAt =
              (case idx_updated_at after of
                 Some u \<Rightarrow> u
               | None \<Rightarrow> (case idx_created_at after of Some c \<Rightarrow> c | None \<Rightarrow> 0))
        in fst (listSessionIndex q s) =
             limit_rows (q_limit q)
               (filter (\<lambda>r. coalesce0 (idx_updated_at r) < cursorUpdatedAt \<or>
                             (coalesce0 (idx_updated_at r) = cursorUpdatedAt \<and>
                              idx_id r < idx_id after))
                  (fst (listSessionIndex (q\<lparr>q_afterID := None, q_limit := None\<rparr>) s)))"
    unfolding Let_def cursor_of_def[symmetric] c[symmetric]
    by (simp add: listSessionIndex_unfold t ix limit_rows_def
        filter_order_by[OF total_index_order] conj_ac cong: conj_cong)
next
  assume r: "fst (readSessionIndexRow a s) = None"
  then have ix: "index_row_of a (ensureSessionIndex s) = None"
    by (simp add: fst_readSessionIndexRow)
  have "(case truthy_string (q_afterID q) of None \<Rightarrow> None
         | Some a \<Rightarrow> index_row_of a (ensureSessionIndex s)) = None"
    using assms(1) ix by simp
  then show "listSessionIndex q s = listSessionIndex (q\<lparr>q_afterID := None\<rparr>) s"
    by (simp add: listSessionIndex_unfold)
qed

theorem listSessionIndex_cursor_witness:
  "fst (readSessionIndexRow ''ses_2'' three_sessions_store)
     = Some (index_record ''ses_2'' ''project_1'' ''Second'' ''/repo/b'' 2000) \<and>
   fst (listSessionIndex ((all_of_project ''project_1'')\<lparr>q_afterID := Some ''ses_2''\<rparr>)
          three_sessions_store)
     = [index_record ''ses_1'' ''project_1'' ''First'' ''/repo/a'' 1000] \<and>
   fst (readSessionIndexRow ''ses_9'' three_sessions_store) = None \<and>
   fst (listSessionIndex ((all_of_project ''project_1'')\<lparr>q_afterID := Some ''ses_9''\<rparr>)
          three_sessions_store)
     = fst (listSessionIndex (all_of_project ''project_1'') three_sessions_store)"
proof -
  have r2: "fst (readSessionIndexRow ''ses_2'' three_sessions_store)
     = Some (index_record ''ses_2'' ''project_1'' ''Second'' ''/repo/b'' 2000)"
    by (simp add: fst_readSessionIndexRow index_row_of_def ensure_three_sessions_store
        session_index_three idx_id_index_record)
  have r9: "fst (readSessionIndexRow ''ses_9'' three_sessions_store) = None"
    by (simp add: fst_readSessionIndexRow index_row_of_def ensure_three_sessions_store
        session_index_three idx_id_index_record)
  have q0: "(all_of_project ''project_1'')\<lparr>q_limit := None\<rparr> = all_of_project ''project_1''"
      "(all_of_project ''project_1'')\<lparr>q_afterID := None\<rparr> = all_of_project ''project_1''"
    by (simp_all add: all_of_project_def)
  show ?thesis
    using listSessionIndex_cursor[of "(all_of_project ''project_1'')\<lparr>q_afterID := Some ''ses_2''\<rparr>"
        "''ses_2''" three_sessions_store
        "index_record ''ses_2'' ''project_1'' ''Second'' ''/repo/b'' 2000"]
      listSessionIndex_cursor[of "(all_of_project ''project_1'')\<lparr>q_afterID := Some ''ses_9''\<rparr>"
        "''ses_9''" three_sessions_store
        "index_record ''ses_2'' ''project_1'' ''Second'' ''/repo/b'' 2000"]
    by (simp add: r2 r9 q0 listing_three limit_rows_def q_limit_all_of_project index_record_def)
qed

section \<open>Atomicity of the mutations\<close>

lemma transaction_cases:
  "transaction k stmts s = (None, run_all stmts s) \<or> transaction k stmts s = (Some SqliteError, s)"
  by (cases k) (simp_all add: transaction_def)

lemma removeParts_atomic:
  "removeParts_failing k sid mid ids s = (None, removeParts sid mid ids s) \<or>
   removeParts_failing k sid mid ids s = (Some SqliteError, s)"
  using transaction_cases[of k "removeParts_stmts sid mid ids" s]
  by (simp add: removeParts_failing_def removeParts_def)

lemma removeMessage_removes_parts:
  "readMessage sid mid (removeMessage sid mid s) = None \<and>
   readParts sid mid (removeMessage sid mid s) = []"
  by (simp add: removeMessage_def removeMessage_stmts_def run_all_def delete_message_def
      removeMessageParts_def readMessage_def readParts_def order_by_def)

text \<open>
  C7. Each of \<^verbatim>\<open>removeParts\<close>, \<^verbatim>\<open>removeMessage\<close>, \<^verbatim>\<open>removeMessages\<close> and
  \<^verbatim>\<open>removeSession\<close> is to run its deletions in one transaction, so that an error leaves
  the store unchanged. \<^verbatim>\<open>removeParts\<close> does (\<open>removeParts_atomic\<close>). The other three run
  two statements with no transaction: when the second raises, the message row is gone and
  its parts remain, or the \<^verbatim>\<open>sessions\<close> row is gone and its \<^verbatim>\<open>session_index\<close> row
  remains.
\<close>

theorem remove_not_atomic:
  "fst (removeMessage_failing (Some 1) ''ses_1'' ''msg_0'' message_with_part_store)
     = Some SqliteError \<and>
   readMessage ''ses_1'' ''msg_0''
     (snd (removeMessage_failing (Some 1) ''ses_1'' ''msg_0'' message_with_part_store)) = None \<and>
   readParts ''ses_1'' ''msg_0''
     (snd (removeMessage_failing (Some 1) ''ses_1'' ''msg_0'' message_with_part_store))
     = [JObj [(''id'', JStr ''prt_1'')]] \<and>
   fst (removeMessages_failing (Some 1) ''ses_1'' message_with_part_store) = Some SqliteError \<and>
   countMessages ''ses_1''
     (snd (removeMessages_failing (Some 1) ''ses_1'' message_with_part_store)) = 0 \<and>
   readParts ''ses_1'' ''msg_0''
     (snd (removeMessages_failing (Some 1) ''ses_1'' message_with_part_store))
     = [JObj [(''id'', JStr ''prt_1'')]] \<and>
   fst (removeSession_failing (Some 1) ''ses_1'' three_sessions_store) = Some SqliteError \<and>
   readSession ''ses_1'' (snd (removeSession_failing (Some 1) ''ses_1'' three_sessions_store))
     = None \<and>
   index_row_of ''ses_1'' (snd (removeSession_failing (Some 1) ''ses_1'' three_sessions_store))
     = Some (index_record ''ses_1'' ''project_1'' ''First'' ''/repo/a'' 1000)"
proof -
  have m: "messages message_with_part_store =
      [\<lparr>msg_id = ''msg_0'', msg_sessionID = ''ses_1'', msg_created_at = Some 1700000000000,
        msg_data = JObj [(''info'', JObj [(''id'', JStr ''msg_0''), (''sessionID'', JStr ''ses_1''),
                            (''time'', JObj [(''created'', JNum 1700000000000)])])]\<rparr>]"
    by (simp add: message_with_part_store_def writeParts_def writeParts_stmts_def run_all_def
        insert_part_def writeMessage_def message_record_def insert_or_replace_def str_prop_def
        empty_store_def)
  have p: "message_parts message_with_part_store =
      [\<lparr>part_sessionID = ''ses_1'', part_messageID = ''msg_0'', part_id = ''prt_1'',
        part_data = JObj [(''id'', JStr ''prt_1'')]\<rparr>]"
    by (simp add: message_with_part_store_def writeParts_def writeParts_stmts_def run_all_def
        insert_part_def writeMessage_def message_record_def insert_or_replace_def str_prop_def
        empty_store_def)
  have s1: "filter (\<lambda>r. ses_id r = ''ses_1'') (filter (\<lambda>r. ses_id r \<noteq> ''ses_1'')
       (sessions three_sessions_store)) = []"
    by (simp add: filter_empty_conv)
  show ?thesis
    by (simp add: removeMessage_failing_def removeMessage_stmts_def removeMessages_failing_def
        removeMessages_stmts_def removeSession_failing_def removeSession_stmts_def run_all_def
        delete_message_def delete_session_messages_def delete_session_def
        readMessage_def readParts_def countMessages_def readSession_def index_row_of_def
        m p s1 session_index_three idx_id_index_record order_by_def)
qed

section \<open>The index follows the sessions\<close>

lemma index_consistent_cong:
  "sessions s' = sessions s \<Longrightarrow> session_index s' = session_index s \<Longrightarrow>
     index_consistent s' = index_consistent s"
  by (simp add: index_consistent_def tables_ok_def index_row_of_def cong: option.case_cong)

lemma sessions_fold_writeSessionIndex:
  "sessions (fold (\<lambda>session st. writeSessionIndex session st) ps s) = sessions s"
  by (induction ps arbitrary: s)
     (simp_all add: writeSessionIndex_def sessions_writeSessionIndexWithDb)

lemma lookup_sweep_other:
  "j \<notin> (\<lambda>p. str_prop p ''id'') ` set ps \<Longrightarrow>
     filter (\<lambda>x. idx_id x = j) (fold sweep_step ps t) = filter (\<lambda>x. idx_id x = j) t"
proof (induction ps arbitrary: t)
  case Nil
  then show ?case by simp
next
  case (Cons a ps)
  then have j: "j \<noteq> str_prop a ''id''" and rest: "j \<notin> (\<lambda>p. str_prop p ''id'') ` set ps"
    by auto
  have "filter (\<lambda>x. idx_id x = j) (sweep_step a t) = filter (\<lambda>x. idx_id x = j) t"
    using j by (auto split: option.splits simp: filter_upsert_other idx_id_sessionIndexRow)
  with Cons.IH[OF rest, of "sweep_step a t"] show ?case by simp
qed

lemma lookup_sweep:
  assumes "distinct (map (\<lambda>p. str_prop p ''id'') ps)" "p \<in> set ps" "sessionIndexRow p = Some r"
  shows "get_row (filter (\<lambda>x. idx_id x = str_prop p ''id'') (fold sweep_step ps t)) = Some r"
  using assms
proof (induction ps arbitrary: t)
  case Nil
  then show ?case by simp
next
  case (Cons a ps)
  show ?case
  proof (cases "p = a")
    case True
    from Cons.prems(1) True have "str_prop p ''id'' \<notin> (\<lambda>p. str_prop p ''id'') ` set ps"
      by auto
    then have "filter (\<lambda>x. idx_id x = str_prop p ''id'') (fold sweep_step ps (sweep_step a t))
        = filter (\<lambda>x. idx_id x = str_prop p ''id'') (sweep_step a t)"
      by (rule lookup_sweep_other)
    moreover have "get_row (filter (\<lambda>x. idx_id x = str_prop p ''id'') (sweep_step a t)) = Some r"
      using True Cons.prems(3) get_row_filter_upsert[of idx_id r t]
      by (simp add: idx_id_sessionIndexRow)
    ultimately show ?thesis by simp
  next
    case False
    with Cons.prems have "p \<in> set ps" "distinct (map (\<lambda>p. str_prop p ''id'') ps)" by auto
    with Cons.IH[of "sweep_step a t"] Cons.prems(3) show ?thesis by simp
  qed
qed

lemma set_upsert_ids: "idx_id ` set (upsert idx_id r t) = insert (idx_id r) (idx_id ` set t)"
  by (auto simp: upsert_def image_iff split: if_splits)

lemma ids_sweep:
  "idx_id ` set (fold sweep_step ps t) \<subseteq> idx_id ` set t \<union> (\<lambda>p. str_prop p ''id'') ` set ps"
proof (induction ps arbitrary: t)
  case Nil
  then show ?case by simp
next
  case (Cons a ps)
  have "idx_id ` set (sweep_step a t) \<subseteq> insert (str_prop a ''id'') (idx_id ` set t)"
    by (auto split: option.splits simp: set_upsert_ids idx_id_sessionIndexRow)
  with Cons.IH[of "sweep_step a t"] show ?case by auto
qed

lemma sessions_sweep: "sessions (sweep s) = sessions s"
  by (simp add: sweep_def sessions_fold_writeSessionIndex)

lemma session_index_sweep:
  "session_index (sweep s) = fold sweep_step (map ses_data (sessions s)) (session_index s)"
  by (simp add: sweep_def session_index_fold_writeSessionIndex)

lemma payload_ids:
  "list_all (\<lambda>row. ses_id row = str_prop (ses_data row) ''id'') rows \<Longrightarrow>
     map (\<lambda>p. str_prop p ''id'') (map ses_data rows) = map ses_id rows"
  by (induction rows) auto

lemma index_consistent_sweep:
  assumes "tables_ok s"
  shows "index_consistent (sweep s)"
proof -
  from assms have d: "distinct (map ses_id (sessions s))"
    and ids: "list_all (\<lambda>row. ses_id row = str_prop (ses_data row) ''id'') (sessions s)"
    and sub: "idx_id ` set (session_index s) \<subseteq> ses_id ` set (sessions s)"
    by (auto simp: tables_ok_def list_all_iff)
  have pid: "map (\<lambda>p. str_prop p ''id'') (map ses_data (sessions s)) = map ses_id (sessions s)"
    using ids by (rule payload_ids)
  then have pid_set: "(\<lambda>p. str_prop p ''id'') ` set (map ses_data (sessions s))
      = ses_id ` set (sessions s)"
    by (metis list.set_map)
  have "idx_id ` set (session_index (sweep s)) \<subseteq> ses_id ` set (sessions s)"
    using ids_sweep[of "map ses_data (sessions s)" "session_index s"] sub pid_set
    unfolding session_index_sweep by blast
  then have t: "tables_ok (sweep s)"
    using d ids by (auto simp: tables_ok_def sessions_sweep list_all_iff)
  have "\<forall>row\<in>set (sessions s). \<forall>r. sessionIndexRow (ses_data row) = Some r \<longrightarrow>
          index_row_of (ses_id row) (sweep s) = Some r"
  proof (intro ballI allI impI)
    fix row r assume row: "row \<in> set (sessions s)" and r: "sessionIndexRow (ses_data row) = Some r"
    have "get_row (filter (\<lambda>x. idx_id x = str_prop (ses_data row) ''id'')
            (fold sweep_step (map ses_data (sessions s)) (session_index s))) = Some r"
    proof (rule lookup_sweep)
      show "distinct (map (\<lambda>p. str_prop p ''id'') (map ses_data (sessions s)))"
        by (simp only: pid d)
      show "ses_data row \<in> set (map ses_data (sessions s))" using row by simp
      show "sessionIndexRow (ses_data row) = Some r" by (rule r)
    qed
    moreover have "ses_id row = str_prop (ses_data row) ''id''"
      using ids row by (auto simp: list_all_iff)
    ultimately show "index_row_of (ses_id row) (sweep s) = Some r"
      by (simp add: index_row_of_def session_index_sweep)
  qed
  with t show ?thesis
    by (auto simp: index_consistent_def sessions_sweep list_all_iff split: option.splits)
qed

lemma ensureSessionIndex_sweep:
  "ensureSessionIndex s = s \<or>
   ensureSessionIndex s = metaSet ''session-index-seeded'' ''1'' (sweep s)"
  by (simp add: ensureSessionIndex_def sweep_def Let_def)

lemma index_consistent_metaSet: "index_consistent (metaSet k v s) = index_consistent s"
  by (rule index_consistent_cong) (simp_all add: metaSet_def)

lemma index_consistent_tables_ok: "index_consistent s \<Longrightarrow> tables_ok s"
  by (simp add: index_consistent_def)

lemma index_consistent_ensure:
  "index_consistent s \<Longrightarrow> index_consistent (ensureSessionIndex s)"
  using ensureSessionIndex_sweep[of s]
  by (auto simp: index_consistent_metaSet index_consistent_sweep index_consistent_tables_ok)

lemma index_consistent_seeding:
  assumes "tables_ok s" "metaGet ''session-index-seeded'' s = None"
  shows "index_consistent (ensureSessionIndex s)"
  using assms
  by (simp add: ensureSessionIndex_def Let_def index_consistent_metaSet
      index_consistent_sweep[unfolded sweep_def])

lemma index_consistent_writeSession:
  assumes "index_consistent s"
  shows "index_consistent (writeSession p s)"
proof -
  define i where "i = str_prop p ''id''"
  define new where "new = \<lparr>ses_id = str_prop p ''id'',
             ses_projectID = str_prop p ''projectID'',
             ses_parentID = string_or_null (js_prop p ''parentID''),
             ses_created_at = number_or_null (opt_prop (js_prop p ''time'') ''created''),
             ses_updated_at = number_or_null (opt_prop (js_prop p ''time'') ''updated''),
             ses_data = p\<rparr>"
  have ses: "sessions (writeSession p s) = filter (\<lambda>x. ses_id x \<noteq> i) (sessions s) @ [new]"
    by (simp add: sessions_writeSession insert_or_replace_def new_def i_def)
  have new_id: "ses_id new = i" "ses_data new = p" by (simp_all add: new_def i_def)
  from assms have d: "distinct (map ses_id (sessions s))"
    and ids: "\<forall>row\<in>set (sessions s). ses_id row = str_prop (ses_data row) ''id''"
    and sub: "idx_id ` set (session_index s) \<subseteq> ses_id ` set (sessions s)"
    and con: "\<forall>row\<in>set (sessions s). \<forall>r. sessionIndexRow (ses_data row) = Some r \<longrightarrow>
          index_row_of (ses_id row) s = Some r"
    by (auto simp: index_consistent_def tables_ok_def list_all_iff)
  have ids_new: "ses_id ` set (sessions (writeSession p s)) = insert i (ses_id ` set (sessions s))"
    by (auto simp: ses new_id)
  have idx_sub: "idx_id ` set (session_index (writeSession p s))
                   \<subseteq> insert i (idx_id ` set (session_index s))"
    by (auto simp: session_index_writeSession set_upsert_ids idx_id_sessionIndexRow i_def
        split: option.splits)
  have d': "distinct (map ses_id (sessions (writeSession p s)))"
    using d by (auto simp: ses new_id distinct_map_filter)
  have t: "tables_ok (writeSession p s)"
    unfolding tables_ok_def list_all_iff
  proof (intro conjI ballI)
    show "distinct (map ses_id (sessions (writeSession p s)))" by (rule d')
  next
    fix row assume "row \<in> set (sessions (writeSession p s))"
    then show "ses_id row = str_prop (ses_data row) ''id''"
      using ids by (auto simp: ses new_id i_def)
  next
    fix x assume "x \<in> set (session_index (writeSession p s))"
    then have "idx_id x \<in> insert i (idx_id ` set (session_index s))" using idx_sub by blast
    then show "idx_id x \<in> set (map ses_id (sessions (writeSession p s)))"
      using sub ids_new by auto
  qed
  have other: "\<And>j. j \<noteq> i \<Longrightarrow> index_row_of j (writeSession p s) = index_row_of j s"
    by (auto simp: index_row_of_def session_index_writeSession filter_upsert_other
        idx_id_sessionIndexRow i_def split: option.splits)
  have "\<forall>row\<in>set (sessions (writeSession p s)). \<forall>r. sessionIndexRow (ses_data row) = Some r \<longrightarrow>
          index_row_of (ses_id row) (writeSession p s) = Some r"
  proof (intro ballI allI impI)
    fix row r
    assume row: "row \<in> set (sessions (writeSession p s))"
      and r: "sessionIndexRow (ses_data row) = Some r"
    show "index_row_of (ses_id row) (writeSession p s) = Some r"
    proof (cases "row = new")
      case True
      with r show ?thesis
        using index_row_of_writeSession[of p r s] by (simp add: new_id i_def)
    next
      case False
      with row have old: "row \<in> set (sessions s)" "ses_id row \<noteq> i" by (auto simp: ses)
      with con r other show ?thesis by simp
    qed
  qed
  with t show ?thesis
    by (auto simp: index_consistent_def list_all_iff split: option.splits)
qed

lemma index_consistent_removeSession:
  assumes "index_consistent s"
  shows "index_consistent (removeSession i s)"
proof -
  have ses: "sessions (removeSession i s) = filter (\<lambda>r. ses_id r \<noteq> i) (sessions s)"
    and idx: "session_index (removeSession i s) = filter (\<lambda>r. idx_id r \<noteq> i) (session_index s)"
    by (simp_all add: removeSession_def removeSession_stmts_def run_all_def delete_session_def
        delete_session_index_def)
  from assms have d: "distinct (map ses_id (sessions s))"
    and ids: "\<forall>row\<in>set (sessions s). ses_id row = str_prop (ses_data row) ''id''"
    and sub: "idx_id ` set (session_index s) \<subseteq> ses_id ` set (sessions s)"
    and con: "\<forall>row\<in>set (sessions s). \<forall>r. sessionIndexRow (ses_data row) = Some r \<longrightarrow>
          index_row_of (ses_id row) s = Some r"
    by (auto simp: index_consistent_def tables_ok_def list_all_iff)
  have t: "tables_ok (removeSession i s)"
    using d ids sub by (auto simp: tables_ok_def list_all_iff ses idx distinct_map_filter)
  have other: "\<And>j. j \<noteq> i \<Longrightarrow> index_row_of j (removeSession i s) = index_row_of j s"
    by (auto simp: index_row_of_def idx intro!: arg_cong[where f=get_row] filter_cong)
  have "\<forall>row\<in>set (sessions (removeSession i s)). \<forall>r.
          sessionIndexRow (ses_data row) = Some r \<longrightarrow>
          index_row_of (ses_id row) (removeSession i s) = Some r"
    using con other by (auto simp: ses)
  with t show ?thesis
    by (auto simp: index_consistent_def list_all_iff split: option.splits)
qed

lemma sessions_ensureSessionIndex: "sessions (ensureSessionIndex s) = sessions s"
  using ensureSessionIndex_sweep[of s] by (auto simp: sessions_sweep metaSet_def)

lemma snd_readSessionIndexRow: "snd (readSessionIndexRow i s) = ensureSessionIndex s"
  by (simp add: readSessionIndexRow_def Let_def)

lemma snd_listSessionIndex: "snd (listSessionIndex q s) = ensureSessionIndex s"
  by (simp add: listSessionIndex_unfold)

lemma snd_listSessionIndexChildren:
  "snd (listSessionIndexChildren i s) = ensureSessionIndex s"
  by (simp add: listSessionIndexChildren_def Let_def)

lemma sessions_run_all_parts:
  "sessions (run_all (map (insert_part sid mid) ps) s) = sessions s \<and>
   session_index (run_all (map (insert_part sid mid) ps) s) = session_index s"
  by (induction ps arbitrary: s) (simp_all add: run_all_Nil run_all_Cons insert_part_def)

lemma sessions_run_all_delete_parts:
  "sessions (run_all (map (delete_part sid mid) ids) s) = sessions s \<and>
   session_index (run_all (map (delete_part sid mid) ids) s) = session_index s"
  by (induction ids arbitrary: s) (simp_all add: run_all_Nil run_all_Cons delete_part_def)

lemma index_consistent_apply_op:
  assumes "index_consistent s"
  shows "index_consistent (apply_op opr s)"
proof (cases opr)
  case (MetaSet k v)
  with assms show ?thesis by (simp add: index_consistent_metaSet)
next
  case (WriteSession p)
  with assms show ?thesis by (simp add: index_consistent_writeSession)
next
  case (RemoveSession i)
  with assms show ?thesis by (simp add: index_consistent_removeSession)
next
  case EnsureSessionIndex
  with assms show ?thesis by (simp add: index_consistent_ensure)
next
  case (ReadSessionIndexRow i)
  with assms show ?thesis by (simp add: snd_readSessionIndexRow index_consistent_ensure)
next
  case (ListSessionIndex q)
  with assms show ?thesis by (simp add: snd_listSessionIndex index_consistent_ensure)
next
  case (ListSessionIndexChildren i)
  with assms show ?thesis
    by (simp add: snd_listSessionIndexChildren index_consistent_ensure)
next
  case (WriteMessage m)
  have "index_consistent (writeMessage m s) = index_consistent s"
    by (rule index_consistent_cong) (simp_all add: writeMessage_def Let_def split: option.splits)
  with assms WriteMessage show ?thesis by simp
next
  case (WriteParts sid mid ps)
  have "index_consistent (writeParts sid mid ps s) = index_consistent s"
    by (rule index_consistent_cong)
       (simp_all add: writeParts_def writeParts_stmts_def sessions_run_all_parts)
  with assms WriteParts show ?thesis by simp
next
  case (RemoveParts sid mid ids)
  have "index_consistent (removeParts sid mid ids s) = index_consistent s"
    by (rule index_consistent_cong)
       (simp_all add: removeParts_def removeParts_stmts_def sessions_run_all_delete_parts)
  with assms RemoveParts show ?thesis by simp
next
  case (RemoveMessageParts sid mid)
  have "index_consistent (removeMessageParts sid mid s) = index_consistent s"
    by (rule index_consistent_cong) (simp_all add: removeMessageParts_def)
  with assms RemoveMessageParts show ?thesis by simp
next
  case (RemoveMessage sid mid)
  have "index_consistent (removeMessage sid mid s) = index_consistent s"
    by (rule index_consistent_cong)
       (simp_all add: removeMessage_def removeMessage_stmts_def run_all_def delete_message_def
          removeMessageParts_def)
  with assms RemoveMessage show ?thesis by simp
next
  case (RemoveMessages sid)
  have "index_consistent (removeMessages sid s) = index_consistent s"
    by (rule index_consistent_cong)
       (simp_all add: removeMessages_def removeMessages_stmts_def run_all_def
          delete_session_messages_def delete_session_parts_def)
  with assms RemoveMessages show ?thesis by simp
next
  case (WriteDiff sid v)
  have "index_consistent (writeDiff sid v s) = index_consistent s"
    by (rule index_consistent_cong) (simp_all add: writeDiff_def)
  with assms WriteDiff show ?thesis by simp
next
  case (RemoveDiff sid)
  have "index_consistent (removeDiff sid s) = index_consistent s"
    by (rule index_consistent_cong) (simp_all add: removeDiff_def)
  with assms RemoveDiff show ?thesis by simp
qed

lemma index_consistent_ops:
  "index_consistent s \<Longrightarrow> index_consistent (fold apply_op ops s)"
  by (induction ops arbitrary: s) (simp_all add: index_consistent_apply_op)

lemma index_consistent_empty: "index_consistent empty_store"
  by (simp add: index_consistent_def tables_ok_def empty_store_def)

lemma readSession_Some_row:
  "readSession X s = Some payload \<Longrightarrow>
     \<exists>row\<in>set (sessions s). ses_id row = X \<and> ses_data row = payload"
proof -
  assume a: "readSession X s = Some payload"
  then obtain row rest where "filter (\<lambda>r. ses_id r = X) (sessions s) = row # rest"
    "ses_data row = payload"
    unfolding readSession_def by (cases "filter (\<lambda>r. ses_id r = X) (sessions s)") auto
  then have "row \<in> set (filter (\<lambda>r. ses_id r = X) (sessions s))" by simp
  with \<open>ses_data row = payload\<close> show ?thesis by auto
qed

lemma sessionIndexRow_Some_iff:
  "sessionIndexRow p \<noteq> None \<longleftrightarrow>
     string_or (js_prop p ''title'') [] \<noteq> [] \<and> string_or (js_prop p ''directory'') [] \<noteq> []"
  by (simp add: sessionIndexRow_def Let_def)

lemma index_read_of_session:
  assumes "index_consistent s" "readSession X s = Some payload"
    "string_or (js_prop payload ''title'') [] \<noteq> []"
    "string_or (js_prop payload ''directory'') [] \<noteq> []"
  shows "fst (readSessionIndexRow X s) = sessionIndexRow payload \<and> sessionIndexRow payload \<noteq> None"
proof -
  from assms(3,4) obtain r where r: "sessionIndexRow payload = Some r"
    using sessionIndexRow_Some_iff[of payload] by auto
  from assms(2) obtain row where row: "row \<in> set (sessions s)" "ses_id row = X"
    "ses_data row = payload"
    using readSession_Some_row by blast
  have c: "index_consistent (ensureSessionIndex s)"
    using assms(1) by (rule index_consistent_ensure)
  have "row \<in> set (sessions (ensureSessionIndex s))"
    using row(1) by (simp add: sessions_ensureSessionIndex)
  with c r row have "index_row_of X (ensureSessionIndex s) = Some r"
    by (auto simp: index_consistent_def list_all_iff)
  with r show ?thesis by (simp add: fst_readSessionIndexRow)
qed

lemma session_of_index_read:
  assumes "index_consistent s" "fst (readSessionIndexRow X s) \<noteq> None"
  shows "readSession X s \<noteq> None"
proof -
  from assms(2) obtain r where "index_row_of X (ensureSessionIndex s) = Some r"
    by (auto simp: fst_readSessionIndexRow)
  then have "r \<in> set (session_index (ensureSessionIndex s))" "idx_id r = X"
    unfolding index_row_of_def
    by (cases "filter (\<lambda>r. idx_id r = X) (session_index (ensureSessionIndex s))";
        force dest: arg_cong[where f=set])+
  moreover have "tables_ok (ensureSessionIndex s)"
    using assms(1) index_consistent_ensure index_consistent_tables_ok by blast
  ultimately have "X \<in> ses_id ` set (sessions s)"
    by (auto simp: tables_ok_def list_all_iff sessions_ensureSessionIndex)
  then obtain row where "row \<in> set (sessions s)" "ses_id row = X" by auto
  then have "filter (\<lambda>r. ses_id r = X) (sessions s) \<noteq> []"
    by (auto simp: filter_empty_conv)
  then show ?thesis
    unfolding readSession_def by (cases "filter (\<lambda>r. ses_id r = X) (sessions s)") auto
qed

lemma untitled_write:
  assumes "sessionIndexRow p = None"
  shows "readSession (str_prop p ''id'') (writeSession p s) = Some p \<and>
     session_index (writeSession p s) = session_index s \<and>
     (index_row_of (str_prop p ''id'') (ensureSessionIndex s) = None \<longrightarrow>
        fst (readSessionIndexRow (str_prop p ''id'') (writeSession p (ensureSessionIndex s))) = None)"
  using assms
  by (simp add: readSession_writeSession session_index_writeSession fst_readSessionIndexRow
      ensure_after_write index_row_of_def)

lemma untitled_session_props:
  "str_prop (untitled_session i projectID) ''id'' = i"
  "sessionIndexRow (untitled_session i projectID) = None"
  "js_prop (untitled_session i projectID) ''title'' = None"
  "js_prop (untitled_session i projectID) ''directory'' = None"
  by (simp_all add: untitled_session_def str_prop_def sessionIndexRow_def)

lemma ensure_after_writes:
  "ensureSessionIndex (writeSession p (writeSession p' (ensureSessionIndex s)))
     = writeSession p (writeSession p' (ensureSessionIndex s))"
proof -
  have "metaGet ''session-index-seeded'' (writeSession p (writeSession p' (ensureSessionIndex s)))
        = metaGet ''session-index-seeded'' (ensureSessionIndex s)"
    by (rule metaGet_cong) (simp add: meta_writeSession)
  with ensureSessionIndex_seeded[of s] show ?thesis
    by (simp add: ensureSessionIndex_when_seeded)
qed

lemma session_index_ensure_empty: "session_index (ensureSessionIndex empty_store) = []"
  by (simp add: ensureSessionIndex_def Let_def metaGet_def empty_store_def metaSet_def)

text \<open>
  C4 (as stated). In a seeded store, an index row with id X exists if and only if the
  session X exists and its payload has a non-empty title and directory. After a titled
  session is overwritten by a payload of the same id without title and directory, the
  index row written first is still there: \<^verbatim>\<open>writeSessionIndexWithDb\<close> returns before
  any statement when no row is derived.
\<close>

theorem index_invariant_counterexample:
  "fst (readSessionIndexRow ''ses_1'' stale_index_store)
     = Some (index_record ''ses_1'' ''project_1'' ''First'' ''/repo/a'' 1000) \<and>
   readSession ''ses_1'' stale_index_store = Some (untitled_session ''ses_1'' ''project_1'') \<and>
   js_prop (untitled_session ''ses_1'' ''project_1'') ''title'' = None \<and>
   js_prop (untitled_session ''ses_1'' ''project_1'') ''directory'' = None"
proof -
  have "readSession (str_prop (untitled_session ''ses_1'' ''project_1'') ''id'') stale_index_store
          = Some (untitled_session ''ses_1'' ''project_1'')"
    unfolding stale_index_store_def by (rule readSession_writeSession)
  moreover have "fst (readSessionIndexRow ''ses_1'' stale_index_store)
     = Some (index_record ''ses_1'' ''project_1'' ''First'' ''/repo/a'' 1000)"
    by (simp add: fst_readSessionIndexRow stale_index_store_def ensure_after_writes
        index_row_of_def session_index_writeSession untitled_session_props
        sessionIndexRow_session_record session_index_ensure_empty upsert_def idx_id_index_record)
  ultimately show ?thesis by (simp add: untitled_session_props)
qed

text \<open>
  C4 (amended). In the empty store, in a store just seeded from well-formed tables, and
  after every sequence of operations from such a store: when the session X exists and its
  payload has a non-empty string title and directory, the index row X exists and is the
  row derived from that payload; and when an index row X exists, the session X exists.
  Writing a session that lacks title or directory derives no row and leaves the index
  table as it was: the session read succeeds, and the index read returns absent when the
  index had no row of that id.
\<close>

theorem index_follows_sessions:
  "index_consistent empty_store \<and>
   (tables_ok s0 \<and> metaGet ''session-index-seeded'' s0 = None \<longrightarrow>
      index_consistent (ensureSessionIndex s0)) \<and>
   (index_consistent s \<longrightarrow>
      index_consistent (fold apply_op ops s) \<and>
      (readSession X (fold apply_op ops s) = Some payload \<and>
       string_or (js_prop payload ''title'') [] \<noteq> [] \<and>
       string_or (js_prop payload ''directory'') [] \<noteq> [] \<longrightarrow>
         fst (readSessionIndexRow X (fold apply_op ops s)) = sessionIndexRow payload \<and>
         sessionIndexRow payload \<noteq> None) \<and>
      (fst (readSessionIndexRow X (fold apply_op ops s)) \<noteq> None \<longrightarrow>
         readSession X (fold apply_op ops s) \<noteq> None)) \<and>
   (sessionIndexRow p = None \<longrightarrow>
      readSession (str_prop p ''id'') (writeSession p s1) = Some p \<and>
      session_index (writeSession p s1) = session_index s1 \<and>
      (index_row_of (str_prop p ''id'') (ensureSessionIndex s1) = None \<longrightarrow>
         fst (readSessionIndexRow (str_prop p ''id'') (writeSession p (ensureSessionIndex s1)))
           = None))"
proof (intro conjI impI)
  show "index_consistent empty_store" by (rule index_consistent_empty)
next
  assume "tables_ok s0 \<and> metaGet ''session-index-seeded'' s0 = None"
  then show "index_consistent (ensureSessionIndex s0)"
    by (simp add: index_consistent_seeding)
next
  assume "index_consistent s"
  then show "index_consistent (fold apply_op ops s)" by (rule index_consistent_ops)
next
  assume a: "index_consistent s"
    and b: "readSession X (fold apply_op ops s) = Some payload \<and>
       string_or (js_prop payload ''title'') [] \<noteq> [] \<and>
       string_or (js_prop payload ''directory'') [] \<noteq> []"
  from a have c: "index_consistent (fold apply_op ops s)" by (rule index_consistent_ops)
  from index_read_of_session[OF c, of X payload] b
  show "fst (readSessionIndexRow X (fold apply_op ops s)) = sessionIndexRow payload"
    and "sessionIndexRow payload \<noteq> None" by simp_all
next
  assume a: "index_consistent s"
    and b: "fst (readSessionIndexRow X (fold apply_op ops s)) \<noteq> None"
  from a have c: "index_consistent (fold apply_op ops s)" by (rule index_consistent_ops)
  from session_of_index_read[OF c b]
  show "readSession X (fold apply_op ops s) \<noteq> None" .
next
  assume a: "sessionIndexRow p = None"
  from untitled_write[OF a, of s1]
  show "readSession (str_prop p ''id'') (writeSession p s1) = Some p"
    and "session_index (writeSession p s1) = session_index s1" by simp_all
next
  assume a: "sessionIndexRow p = None"
    and b: "index_row_of (str_prop p ''id'') (ensureSessionIndex s1) = None"
  from untitled_write[OF a, of s1] b
  show "fst (readSessionIndexRow (str_prop p ''id'') (writeSession p (ensureSessionIndex s1)))
           = None" by simp
qed

theorem index_follows_sessions_witness:
  "tables_ok legacy_store \<and> metaGet ''session-index-seeded'' legacy_store = None \<and>
   index_consistent (ensureSessionIndex legacy_store) \<and>
   index_consistent empty_store \<and>
   readSession ''ses_1''
     (fold apply_op
        [WriteSession (session_record ''ses_1'' ''project_1'' ''First'' ''/repo/a'' 1000),
         WriteSession (untitled_session ''ses_2'' ''project_1'')] empty_store)
     = Some (session_record ''ses_1'' ''project_1'' ''First'' ''/repo/a'' 1000) \<and>
   fst (readSessionIndexRow ''ses_1''
     (fold apply_op
        [WriteSession (session_record ''ses_1'' ''project_1'' ''First'' ''/repo/a'' 1000),
         WriteSession (untitled_session ''ses_2'' ''project_1'')] empty_store))
     = Some (index_record ''ses_1'' ''project_1'' ''First'' ''/repo/a'' 1000) \<and>
   sessionIndexRow (untitled_session ''ses_2'' ''project_1'') = None \<and>
   readSession ''ses_2'' (writeSession (untitled_session ''ses_2'' ''project_1'') empty_store)
     = Some (untitled_session ''ses_2'' ''project_1'') \<and>
   index_row_of ''ses_2'' (ensureSessionIndex empty_store) = None \<and>
   fst (readSessionIndexRow ''ses_2''
     (writeSession (untitled_session ''ses_2'' ''project_1'') (ensureSessionIndex empty_store)))
     = None"
proof -
  have t: "tables_ok legacy_store \<and> metaGet ''session-index-seeded'' legacy_store = None"
    by (simp add: legacy_store_def tables_ok_def metaGet_def session_record_props)
  have r: "readSession ''ses_1''
     (fold apply_op
        [WriteSession (session_record ''ses_1'' ''project_1'' ''First'' ''/repo/a'' 1000),
         WriteSession (untitled_session ''ses_2'' ''project_1'')] empty_store)
     = Some (session_record ''ses_1'' ''project_1'' ''First'' ''/repo/a'' 1000)"
    by (simp add: readSession_def sessions_writeSession insert_or_replace_def
        session_record_props untitled_session_props empty_store_def)
  have ti: "string_or (js_prop (session_record ''ses_1'' ''project_1'' ''First'' ''/repo/a'' 1000)
       ''title'') [] \<noteq> [] \<and>
     string_or (js_prop (session_record ''ses_1'' ''project_1'' ''First'' ''/repo/a'' 1000)
       ''directory'') [] \<noteq> []"
    by (simp add: session_record_def)
  have e: "index_row_of ''ses_2'' (ensureSessionIndex empty_store) = None"
    by (simp add: index_row_of_def session_index_ensure_empty)
  show ?thesis
    using index_follows_sessions[where ?s0.0 = legacy_store and s = empty_store
        and ops = "[WriteSession (session_record ''ses_1'' ''project_1'' ''First'' ''/repo/a'' 1000),
                    WriteSession (untitled_session ''ses_2'' ''project_1'')]"
        and X = "''ses_1''"
        and payload = "session_record ''ses_1'' ''project_1'' ''First'' ''/repo/a'' 1000"
        and p = "untitled_session ''ses_2'' ''project_1''" and ?s1.0 = empty_store]
      t r ti e
    by (simp add: untitled_session_props sessionIndexRow_session_record)
qed

section \<open>writeSession: one transaction\<close>

text \<open>
  C6 (as stated). \<^verbatim>\<open>writeSession\<close> runs the insert into \<^verbatim>\<open>sessions\<close> and the upsert of
  the derived index row in one transaction, so that no reachable state has the
  \<^verbatim>\<open>sessions\<close> row and the \<^verbatim>\<open>session_index\<close> row of the written id disagreeing. Two
  writes that both commit reach such a state: after a titled session is overwritten by a
  payload of the same id without title, the session read returns the payload without
  title, which derives no index row, and the index read returns the row with the title
  written first.
\<close>

theorem writeSession_disagree_counterexample:
  "writeSession_failing None (untitled_session ''ses_1'' ''project_1'')
     (writeSession (session_record ''ses_1'' ''project_1'' ''First'' ''/repo/a'' 1000)
        (ensureSessionIndex empty_store)) = (None, stale_index_store) \<and>
   readSession ''ses_1'' stale_index_store = Some (untitled_session ''ses_1'' ''project_1'') \<and>
   sessionIndexRow (untitled_session ''ses_1'' ''project_1'') = None \<and>
   js_prop (untitled_session ''ses_1'' ''project_1'') ''title'' = None \<and>
   fst (readSessionIndexRow ''ses_1'' stale_index_store)
     = Some (index_record ''ses_1'' ''project_1'' ''First'' ''/repo/a'' 1000) \<and>
   idx_title (index_record ''ses_1'' ''project_1'' ''First'' ''/repo/a'' 1000) = ''First''"
proof -
  have w: "writeSession_failing None (untitled_session ''ses_1'' ''project_1'')
     (writeSession (session_record ''ses_1'' ''project_1'' ''First'' ''/repo/a'' 1000)
        (ensureSessionIndex empty_store)) = (None, stale_index_store)"
    by (simp add: writeSession_failing_def transaction_def writeSession_def
        stale_index_store_def)
  have "readSession (str_prop (untitled_session ''ses_1'' ''project_1'') ''id'') stale_index_store
          = Some (untitled_session ''ses_1'' ''project_1'')"
    unfolding stale_index_store_def by (rule readSession_writeSession)
  then have r: "readSession ''ses_1'' stale_index_store
          = Some (untitled_session ''ses_1'' ''project_1'')"
    by (simp add: untitled_session_props)
  have i: "fst (readSessionIndexRow ''ses_1'' stale_index_store)
     = Some (index_record ''ses_1'' ''project_1'' ''First'' ''/repo/a'' 1000)"
    by (simp add: fst_readSessionIndexRow stale_index_store_def ensure_after_writes
        index_row_of_def session_index_writeSession untitled_session_props
        sessionIndexRow_session_record session_index_ensure_empty upsert_def idx_id_index_record)
  from w r i show ?thesis
    by (simp add: untitled_session_props index_record_def)
qed

text \<open>
  C6 (amended). \<^verbatim>\<open>writeSession\<close> runs the insert into \<^verbatim>\<open>sessions\<close> and the upsert of
  the derived index row in one transaction: whichever statement raises, the store is the
  one before the call, and when none raises both have taken effect. No outcome has the
  effect of one statement without the other. After a write without error the session read
  returns the payload; when the payload derives an index row (a non-empty title and
  directory), the index row of the written id is that row; when it derives none, the index
  is left as it was, so an index row written earlier for that id stays.
\<close>

theorem writeSession_atomic:
  "(writeSession_failing k p s = (None, writeSession p s) \<or>
    writeSession_failing k p s = (Some SqliteError, s)) \<and>
   writeSession_failing None p s = (None, writeSession p s) \<and>
   writeSession_failing (Some 0) p s = (Some SqliteError, s) \<and>
   writeSession_failing (Some 1) p s = (Some SqliteError, s) \<and>
   readSession (str_prop p ''id'') (writeSession p s) = Some p \<and>
   (case sessionIndexRow p of
      Some r \<Rightarrow> index_row_of (str_prop p ''id'') (writeSession p s) = Some r
    | None \<Rightarrow> session_index (writeSession p s) = session_index s)"
proof (intro conjI)
  show "writeSession_failing k p s = (None, writeSession p s) \<or>
    writeSession_failing k p s = (Some SqliteError, s)"
    unfolding writeSession_failing_def writeSession_def by (rule transaction_cases)
  show "writeSession_failing None p s = (None, writeSession p s)"
    by (simp add: writeSession_failing_def writeSession_def transaction_def)
  show "writeSession_failing (Some 0) p s = (Some SqliteError, s)"
    by (simp add: writeSession_failing_def transaction_def writeSession_stmts_def)
  show "writeSession_failing (Some 1) p s = (Some SqliteError, s)"
    by (simp add: writeSession_failing_def transaction_def writeSession_stmts_def)
  show "readSession (str_prop p ''id'') (writeSession p s) = Some p"
    by (rule readSession_writeSession)
  show "case sessionIndexRow p of
      Some r \<Rightarrow> index_row_of (str_prop p ''id'') (writeSession p s) = Some r
    | None \<Rightarrow> session_index (writeSession p s) = session_index s"
    by (simp add: index_row_of_writeSession session_index_writeSession split: option.splits)
qed

theorem writeSession_atomic_witness:
  "writeSession_failing (Some 1)
     (session_record ''ses_1'' ''project_1'' ''First'' ''/repo/a'' 1000) empty_store
     = (Some SqliteError, empty_store) \<and>
   writeSession_failing None
     (session_record ''ses_1'' ''project_1'' ''First'' ''/repo/a'' 1000) empty_store
     = (None, writeSession (session_record ''ses_1'' ''project_1'' ''First'' ''/repo/a'' 1000)
                empty_store) \<and>
   readSession ''ses_1''
     (writeSession (session_record ''ses_1'' ''project_1'' ''First'' ''/repo/a'' 1000) empty_store)
     = Some (session_record ''ses_1'' ''project_1'' ''First'' ''/repo/a'' 1000) \<and>
   sessionIndexRow (session_record ''ses_1'' ''project_1'' ''First'' ''/repo/a'' 1000)
     = Some (index_record ''ses_1'' ''project_1'' ''First'' ''/repo/a'' 1000) \<and>
   index_row_of ''ses_1''
     (writeSession (session_record ''ses_1'' ''project_1'' ''First'' ''/repo/a'' 1000) empty_store)
     = Some (index_record ''ses_1'' ''project_1'' ''First'' ''/repo/a'' 1000) \<and>
   sessionIndexRow (untitled_session ''ses_2'' ''project_1'') = None \<and>
   session_index (writeSession (untitled_session ''ses_2'' ''project_1'') empty_store)
     = session_index empty_store"
  using writeSession_atomic[of "Some 1"
          "session_record ''ses_1'' ''project_1'' ''First'' ''/repo/a'' 1000" empty_store]
        writeSession_atomic[of None "untitled_session ''ses_2'' ''project_1''" empty_store]
  by (simp add: session_record_props sessionIndexRow_session_record untitled_session_props)

section \<open>Messages joined with their parts: the grouped page\<close>

lemma listMessagesPage_rows: "listMessagesPage input s = map msg_id (page_rows input s)"
  by (simp add: listMessagesPage_def page_rows_def split: option.splits)

lemma listMessagesWithPartsPage_eq:
  "listMessagesWithPartsPage input s =
     groupRows (select_messages_with_parts (ml_sessionID input) (listMessagesPage input s) s)"
  by (simp add: listMessagesWithPartsPage_def listMessagesPage_def split: option.splits)

lemma left_join_parts_blocks:
  "left_join_parts (messages s) (message_parts s)
     = concat (map (\<lambda>m. join_block m (parts_of m s)) (messages s))"
  by (simp add: left_join_parts_def join_block_def parts_of_def Let_def)

lemma fst_join_block: "x \<in> set (join_block m ps) \<Longrightarrow> fst x = m"
  by (auto simp: join_block_def split: if_splits)

lemma filter_join_block:
  "filter (\<lambda>(m, p). Q m) (join_block m ps) = (if Q m then join_block m ps else [])"
  by (auto simp: join_block_def filter_empty_conv)

lemma filter_blocks:
  "filter (\<lambda>(m, p). Q m) (concat (map (\<lambda>m. join_block m (f m)) ms))
     = concat (map (\<lambda>m. join_block m (f m)) (filter Q ms))"
  by (induction ms) (simp_all add: filter_join_block)

lemma select_row_eq:
  "(\<lambda>(m, p). \<lparr>jr_messageID = msg_id m, jr_message = msg_data m,
                 jr_part = map_option part_data p\<rparr>) = select_row"
  by (rule ext) (simp add: select_row_def split: prod.splits)

lemma select_messages_with_parts_blocks:
  "select_messages_with_parts sid ids s =
     map select_row (order_by join_order
       (concat (map (\<lambda>m. join_block m (parts_of m s))
          (filter (\<lambda>m. msg_sessionID m = sid \<and> msg_id m \<in> set ids) (messages s)))))"
  unfolding select_messages_with_parts_def select_row_eq left_join_parts_blocks
  by (simp add: filter_blocks)

lemma null_le_string_total: "null_le_string a b \<or> null_le_string b a"
  by (cases a; cases b) auto

lemma null_le_string_trans: "null_le_string a b \<Longrightarrow> null_le_string b c \<Longrightarrow> null_le_string a c"
  by (cases a; cases b; cases c) auto

lemma null_le_string_antisym: "null_le_string a b \<Longrightarrow> null_le_string b a \<Longrightarrow> a = b"
  by (cases a; cases b) auto

lemma total_join_order: "total_order_on_rows join_order"
  unfolding total_order_on_rows_def join_order_def
proof (intro conjI allI impI)
  fix x y :: "messages_row \<times> message_parts_row option"
  show "(msg_id (fst y) < msg_id (fst x) \<or>
          msg_id (fst x) = msg_id (fst y) \<and>
          null_le_string (map_option part_id (snd x)) (map_option part_id (snd y))) \<or>
         (msg_id (fst x) < msg_id (fst y) \<or>
          msg_id (fst y) = msg_id (fst x) \<and>
          null_le_string (map_option part_id (snd y)) (map_option part_id (snd x)))"
    using null_le_string_total[of "map_option part_id (snd x)" "map_option part_id (snd y)"]
    by auto
next
  fix x y z :: "messages_row \<times> message_parts_row option"
  assume "msg_id (fst y) < msg_id (fst x) \<or>
          msg_id (fst x) = msg_id (fst y) \<and>
          null_le_string (map_option part_id (snd x)) (map_option part_id (snd y))"
    and "msg_id (fst z) < msg_id (fst y) \<or>
          msg_id (fst y) = msg_id (fst z) \<and>
          null_le_string (map_option part_id (snd y)) (map_option part_id (snd z))"
  then show "msg_id (fst z) < msg_id (fst x) \<or>
          msg_id (fst x) = msg_id (fst z) \<and>
          null_le_string (map_option part_id (snd x)) (map_option part_id (snd z))"
    using null_le_string_trans[of "map_option part_id (snd x)" "map_option part_id (snd y)"
        "map_option part_id (snd z)"]
    by auto
qed

lemma total_part_id_asc: "total_order_on_rows part_id_asc"
  unfolding total_order_on_rows_def part_id_asc_def by auto

lemma order_by_eq_Nil: "order_by le xs = [] \<longleftrightarrow> xs = []"
  using length_order_by[of le xs] by (metis length_0_conv)

lemma part_id_asc_eq: "part_id_asc = (\<lambda>a b. part_id a \<le> part_id b)"
  by (intro ext) (simp add: part_id_asc_def)

lemma sorted_join_block:
  "sorted_wrt part_id_asc ps \<Longrightarrow> sorted_wrt join_order (join_block m ps)"
  by (simp add: join_block_def sorted_wrt_map join_order_def part_id_asc_eq)

lemma sorted_blocks:
  assumes "sorted_wrt (\<lambda>a b. msg_id b < msg_id a) ms"
    and "\<And>m. sorted_wrt part_id_asc (f m)"
  shows "sorted_wrt join_order (concat (map (\<lambda>m. join_block m (f m)) ms))"
  using assms(1)
proof (induction ms)
  case Nil
  then show ?case by simp
next
  case (Cons m ms)
  have "\<forall>x\<in>set (join_block m (f m)). \<forall>y\<in>set (concat (map (\<lambda>m. join_block m (f m)) ms)).
          join_order x y"
  proof (intro ballI)
    fix x y
    assume x: "x \<in> set (join_block m (f m))"
      and y: "y \<in> set (concat (map (\<lambda>m. join_block m (f m)) ms))"
    from x have "fst x = m" by (rule fst_join_block)
    moreover from y obtain m' where "m' \<in> set ms" "fst y = m'"
      by (auto dest: fst_join_block)
    ultimately show "join_order x y"
      using Cons.prems by (auto simp: join_order_def)
  qed
  with Cons assms(2) show ?case
    by (simp add: sorted_wrt_append sorted_join_block)
qed

lemma distinct_join_block: "distinct ps \<Longrightarrow> distinct (join_block m ps)"
  by (simp add: join_block_def distinct_map inj_on_def)

lemma distinct_blocks:
  assumes "distinct ms" and "\<And>m. distinct (f m)"
  shows "distinct (concat (map (\<lambda>m. join_block m (f m)) ms))"
  using assms(1)
proof (induction ms)
  case Nil
  then show ?case by simp
next
  case (Cons m ms)
  have "set (join_block m (f m)) \<inter> set (concat (map (\<lambda>m. join_block m (f m)) ms)) = {}"
  proof (rule ccontr)
    assume "set (join_block m (f m)) \<inter> set (concat (map (\<lambda>m. join_block m (f m)) ms)) \<noteq> {}"
    then obtain x where x: "x \<in> set (join_block m (f m))"
      and y: "x \<in> set (concat (map (\<lambda>m. join_block m (f m)) ms))" by blast
    from x have "fst x = m" by (rule fst_join_block)
    moreover from y obtain m' where "m' \<in> set ms" "fst x = m'"
      by (auto dest: fst_join_block)
    ultimately show False using Cons.prems by auto
  qed
  with Cons assms(2) show ?case
    by (simp add: distinct_join_block)
qed

lemma set_join_block_order_by:
  "set (join_block m (order_by le ps)) = set (join_block m ps)"
  by (simp add: join_block_def order_by_eq_Nil set_order_by)

lemma set_blocks_cong:
  assumes "set ms = set ms'" and "\<And>m. set (join_block m (f m)) = set (join_block m (g m))"
  shows "set (concat (map (\<lambda>m. join_block m (f m)) ms))
       = set (concat (map (\<lambda>m. join_block m (g m)) ms'))"
  using assms by auto

lemma sql_limit_take: "\<exists>k. sql_limit n xs = take k xs"
proof (cases "n < 0")
  case True
  then have "sql_limit n xs = take (length xs) xs" by (simp add: sql_limit_def)
  then show ?thesis by blast
next
  case False
  then show ?thesis by (auto simp: sql_limit_def)
qed

lemma page_rows_take:
  "\<exists>k F. page_rows input s = take k (order_by msg_id_desc (filter F (messages s))) \<and>
          (\<forall>r. F r \<longrightarrow> msg_sessionID r = ml_sessionID input)"
proof (cases "truthy_string (ml_afterID input)")
  case None
  show ?thesis
  proof (cases "ml_limit input")
    case lim: None
    have "page_rows input s = take (length (messages s))
        (order_by msg_id_desc (filter (\<lambda>r. msg_sessionID r = ml_sessionID input) (messages s)))"
      using None lim by (simp add: page_rows_def length_order_by)
    then show ?thesis by blast
  next
    case lim: (Some n)
    obtain k where "sql_limit n (order_by msg_id_desc
        (filter (\<lambda>r. msg_sessionID r = ml_sessionID input) (messages s)))
      = take k (order_by msg_id_desc
        (filter (\<lambda>r. msg_sessionID r = ml_sessionID input) (messages s)))"
      using sql_limit_take by blast
    then have "page_rows input s = take k (order_by msg_id_desc
        (filter (\<lambda>r. msg_sessionID r = ml_sessionID input) (messages s)))"
      using None lim by (simp add: page_rows_def)
    then show ?thesis by blast
  qed
next
  case (Some a)
  show ?thesis
  proof (cases "ml_limit input")
    case lim: None
    have "page_rows input s = take (length (messages s))
        (order_by msg_id_desc
          (filter (\<lambda>r. msg_sessionID r = ml_sessionID input \<and> msg_id r < a) (messages s)))"
      using Some lim by (simp add: page_rows_def length_order_by)
    then show ?thesis by blast
  next
    case lim: (Some n)
    obtain k where "sql_limit n (order_by msg_id_desc
        (filter (\<lambda>r. msg_sessionID r = ml_sessionID input \<and> msg_id r < a) (messages s)))
      = take k (order_by msg_id_desc
        (filter (\<lambda>r. msg_sessionID r = ml_sessionID input \<and> msg_id r < a) (messages s)))"
      using sql_limit_take by blast
    then have "page_rows input s = take k (order_by msg_id_desc
        (filter (\<lambda>r. msg_sessionID r = ml_sessionID input \<and> msg_id r < a) (messages s)))"
      using Some lim by (simp add: page_rows_def)
    then show ?thesis by blast
  qed
qed

lemma distinct_map_order_by: "distinct (map f (order_by le xs)) = distinct (map f xs)"
proof -
  have "mset (map f (order_by le xs)) = mset (map f xs)"
    by (simp add: mset_order_by)
  then show ?thesis by (rule mset_eq_imp_distinct_iff)
qed

lemma sorted_wrt_strict:
  "sorted_wrt le xs \<Longrightarrow> distinct (map f xs) \<Longrightarrow> sorted_wrt (\<lambda>a b. le a b \<and> f a \<noteq> f b) xs"
  by (induction xs) auto

lemma page_rows_props:
  assumes "distinct (map msg_id (messages s))"
  shows "distinct (map msg_id (page_rows input s))"
    and "set (page_rows input s) \<subseteq> set (messages s)"
    and "\<forall>m\<in>set (page_rows input s). msg_sessionID m = ml_sessionID input"
    and "sorted_wrt (\<lambda>a b. msg_id b < msg_id a) (page_rows input s)"
proof -
  obtain k F where pr: "page_rows input s = take k (order_by msg_id_desc (filter F (messages s)))"
    and F: "\<forall>r. F r \<longrightarrow> msg_sessionID r = ml_sessionID input"
    using page_rows_take by blast
  have d0: "distinct (map msg_id (order_by msg_id_desc (filter F (messages s))))"
    using assms by (simp add: distinct_map_order_by distinct_map_filter)
  then show d: "distinct (map msg_id (page_rows input s))"
    unfolding pr by (simp add: take_map[symmetric] del: take_map)
  have sub: "set (page_rows input s) \<subseteq> set (filter F (messages s))"
    unfolding pr using set_take_subset[of k "order_by msg_id_desc (filter F (messages s))"]
    by (simp add: set_order_by)
  then show "set (page_rows input s) \<subseteq> set (messages s)" by auto
  from sub F show "\<forall>m\<in>set (page_rows input s). msg_sessionID m = ml_sessionID input" by auto
  have "sorted_wrt msg_id_desc (page_rows input s)"
    unfolding pr by (simp add: sorted_order_by total_msg_id_desc)
  then have "sorted_wrt (\<lambda>a b. msg_id_desc a b \<and> msg_id a \<noteq> msg_id b) (page_rows input s)"
    using d by (rule sorted_wrt_strict)
  then show "sorted_wrt (\<lambda>a b. msg_id b < msg_id a) (page_rows input s)"
    by (rule sorted_wrt_mono_rel[rotated]) (auto simp: msg_id_desc_def)
qed

lemma same_id_same_row:
  "distinct (map msg_id ms) \<Longrightarrow> a \<in> set ms \<Longrightarrow> b \<in> set ms \<Longrightarrow> msg_id a = msg_id b \<Longrightarrow> a = b"
  by (meson distinct_map inj_onD)

lemma selected_rows:
  assumes "distinct (map msg_id (messages s))"
  shows "set (filter (\<lambda>m. msg_sessionID m = ml_sessionID input \<and>
                          msg_id m \<in> set (map msg_id (page_rows input s))) (messages s))
         = set (page_rows input s)"
proof (intro equalityI subsetI)
  fix m
  assume "m \<in> set (filter (\<lambda>m. msg_sessionID m = ml_sessionID input \<and>
                          msg_id m \<in> set (map msg_id (page_rows input s))) (messages s))"
  then have m: "m \<in> set (messages s)" and "msg_id m \<in> msg_id ` set (page_rows input s)"
    by auto
  then obtain m' where m': "m' \<in> set (page_rows input s)" "msg_id m' = msg_id m" by auto
  with page_rows_props(2)[OF assms, of input] have "m' \<in> set (messages s)" by auto
  with assms m m'(2) have "m' = m" by (metis same_id_same_row)
  with m'(1) show "m \<in> set (page_rows input s)" by simp
next
  fix m assume "m \<in> set (page_rows input s)"
  then show "m \<in> set (filter (\<lambda>m. msg_sessionID m = ml_sessionID input \<and>
                          msg_id m \<in> set (map msg_id (page_rows input s))) (messages s))"
    using page_rows_props(2,3)[OF assms, of input] by auto
qed

lemma in_blocks:
  "x \<in> set (concat (map (\<lambda>m. join_block m (f m)) ms)) \<Longrightarrow>
     fst x \<in> set ms \<and> (snd x = None \<or> (\<exists>p\<in>set (f (fst x)). snd x = Some p))"
  by (auto simp: join_block_def split: if_splits)

lemma same_key_same_part:
  "distinct (map part_key ps) \<Longrightarrow> a \<in> set ps \<Longrightarrow> b \<in> set ps \<Longrightarrow> part_key a = part_key b
     \<Longrightarrow> a = b"
  by (meson distinct_map inj_onD)

lemma join_order_antisym:
  assumes ok: "messages_ok s"
    and x: "x \<in> set (concat (map (\<lambda>m. join_block m (parts_of m s)) ms))"
    and y: "y \<in> set (concat (map (\<lambda>m. join_block m (parts_of m s)) ms))"
    and ms: "set ms \<subseteq> set (messages s)"
    and xy: "join_order x y" and yx: "join_order y x"
  shows "x = y"
proof -
  from ok have dm: "distinct (map msg_id (messages s))"
    and dp: "distinct (map part_key (message_parts s))"
    by (simp_all add: messages_ok_def)
  from xy yx have ids: "msg_id (fst x) = msg_id (fst y)"
    and le1: "null_le_string (map_option part_id (snd x)) (map_option part_id (snd y))"
    and le2: "null_le_string (map_option part_id (snd y)) (map_option part_id (snd x))"
    by (auto simp: join_order_def)
  from in_blocks[OF x] in_blocks[OF y] ms
  have fx: "fst x \<in> set (messages s)" and fy: "fst y \<in> set (messages s)" by auto
  with dm ids have f: "fst x = fst y" by (metis same_id_same_row)
  from le1 le2 have pid: "map_option part_id (snd x) = map_option part_id (snd y)"
    by (rule null_le_string_antisym)
  have "snd x = snd y"
  proof (cases "snd x")
    case None
    with pid show ?thesis by (cases "snd y") auto
  next
    case (Some p)
    with pid obtain q where q: "snd y = Some q" "part_id p = part_id q"
      by (cases "snd y") auto
    from in_blocks[OF x] Some have p: "p \<in> set (parts_of (fst x) s)" by auto
    from in_blocks[OF y] q have q': "q \<in> set (parts_of (fst y) s)" by auto
    from p q' f q(2) have "part_key p = part_key q" "p \<in> set (message_parts s)"
      "q \<in> set (message_parts s)"
      by (auto simp: parts_of_def part_key_def)
    with dp have "p = q" by (metis same_key_same_part)
    with Some q show ?thesis by simp
  qed
  with f show ?thesis by (simp add: prod_eq_iff)
qed

lemma join_sorted_eq:
  assumes ok: "messages_ok s"
  shows "order_by join_order (concat (map (\<lambda>m. join_block m (parts_of m s))
           (filter (\<lambda>m. msg_sessionID m = ml_sessionID input \<and>
                         msg_id m \<in> set (map msg_id (page_rows input s))) (messages s))))
       = concat (map (\<lambda>m. join_block m (order_by part_id_asc (parts_of m s)))
           (page_rows input s))"
    (is "order_by join_order ?U = ?S")
proof (rule sorted_wrt_unique[where le = join_order])
  from ok have dm: "distinct (map msg_id (messages s))"
    and dp: "distinct (map part_key (message_parts s))"
    by (simp_all add: messages_ok_def)
  have dparts: "\<And>m. distinct (parts_of m s)"
    using dp by (simp add: parts_of_def distinct_map)
  show "sorted_wrt join_order (order_by join_order ?U)"
    by (rule sorted_order_by[OF total_join_order])
  show "sorted_wrt join_order ?S"
    by (rule sorted_blocks)
       (simp_all add: page_rows_props(4)[OF dm] sorted_order_by[OF total_part_id_asc])
  have "distinct (messages s)" using dm by (simp add: distinct_map)
  then have "distinct ?U"
    by (intro distinct_blocks) (simp_all add: dparts)
  then show "distinct (order_by join_order ?U)" by (simp add: distinct_order_by)
  have "distinct (page_rows input s)"
    using page_rows_props(1)[OF dm, of input] by (simp add: distinct_map)
  then show "distinct ?S"
    by (intro distinct_blocks) (simp_all add: dparts distinct_order_by)
  have "set ?U = set ?S"
    by (rule set_blocks_cong)
       (simp_all add: selected_rows[OF dm] set_join_block_order_by del: set_map set_filter)
  then show "set (order_by join_order ?U) = set ?S" by (simp add: set_order_by)
  fix x y
  assume "x \<in> set (order_by join_order ?U)" "y \<in> set (order_by join_order ?U)"
    and xy: "join_order x y" and yx: "join_order y x"
  then have x: "x \<in> set ?U" and y: "y \<in> set ?U" by (simp_all only: set_order_by)
  show "x = y"
    by (rule join_order_antisym[OF ok x y _ xy yx]) simp
qed

lemma group_parts:
  assumes "js_prop info ''id'' = Some (JStr i)"
  shows "foldl groupRows_step (acc @ [\<lparr>mwp_info = info, mwp_parts = qs\<rparr>])
           (map (\<lambda>p. \<lparr>jr_messageID = i, jr_message = d, jr_part = Some (part_data p)\<rparr>) ps)
         = acc @ [\<lparr>mwp_info = info, mwp_parts = qs @ map part_data ps\<rparr>]"
proof (induction ps arbitrary: qs)
  case Nil
  then show ?case by simp
next
  case (Cons p ps)
  have "groupRows_step (acc @ [\<lparr>mwp_info = info, mwp_parts = qs\<rparr>])
          \<lparr>jr_messageID = i, jr_message = d, jr_part = Some (part_data p)\<rparr>
        = acc @ [\<lparr>mwp_info = info, mwp_parts = qs @ [part_data p]\<rparr>]"
    using assms by (simp add: groupRows_step_def)
  with Cons.IH[of "qs @ [part_data p]"] show ?case by simp
qed

lemma group_block:
  assumes "acc = [] \<or> js_prop (mwp_info (last acc)) ''id'' \<noteq> Some (JStr (msg_id m))"
    and "js_prop (info_of (msg_data m)) ''id'' = Some (JStr (msg_id m))"
  shows "foldl groupRows_step acc (map select_row (join_block m ps))
         = acc @ [\<lparr>mwp_info = info_of (msg_data m), mwp_parts = map part_data ps\<rparr>]"
proof (cases ps)
  case Nil
  with assms(1) show ?thesis
    by (auto simp: join_block_def select_row_def groupRows_step_def)
next
  case (Cons p ps')
  have first: "groupRows_step acc (select_row (m, Some p))
      = acc @ [\<lparr>mwp_info = info_of (msg_data m), mwp_parts = [part_data p]\<rparr>]"
    using assms(1) by (auto simp: select_row_def groupRows_step_def)
  have rest: "map (select_row \<circ> (\<lambda>p. (m, Some p))) ps'
      = map (\<lambda>p. \<lparr>jr_messageID = msg_id m, jr_message = msg_data m,
                    jr_part = Some (part_data p)\<rparr>) ps'"
    by (simp add: select_row_def comp_def)
  show ?thesis
    using group_parts[OF assms(2), of acc "[part_data p]" "msg_data m" ps']
    by (simp add: Cons join_block_def first rest)
qed

lemma group_blocks:
  assumes "distinct (map msg_id ms)"
    and "\<forall>m\<in>set ms. js_prop (info_of (msg_data m)) ''id'' = Some (JStr (msg_id m))"
    and "acc = [] \<or> (\<forall>m\<in>set ms. js_prop (mwp_info (last acc)) ''id'' \<noteq> Some (JStr (msg_id m)))"
  shows "foldl groupRows_step acc (map select_row (concat (map (\<lambda>m. join_block m (f m)) ms)))
         = acc @ map (\<lambda>m. \<lparr>mwp_info = info_of (msg_data m), mwp_parts = map part_data (f m)\<rparr>) ms"
  using assms
proof (induction ms arbitrary: acc)
  case Nil
  then show ?case by simp
next
  case (Cons m ms)
  let ?e = "\<lparr>mwp_info = info_of (msg_data m), mwp_parts = map part_data (f m)\<rparr>"
  have b: "foldl groupRows_step acc (map select_row (join_block m (f m))) = acc @ [?e]"
    by (rule group_block) (use Cons.prems in auto)
  have "\<forall>m'\<in>set ms. js_prop (mwp_info (last (acc @ [?e]))) ''id'' \<noteq> Some (JStr (msg_id m'))"
    using Cons.prems(1,2) by auto
  then have "foldl groupRows_step (acc @ [?e])
        (map select_row (concat (map (\<lambda>m. join_block m (f m)) ms)))
      = (acc @ [?e]) @ map (\<lambda>m. \<lparr>mwp_info = info_of (msg_data m),
                                    mwp_parts = map part_data (f m)\<rparr>) ms"
    by (intro Cons.IH) (use Cons.prems in auto)
  with b show ?case by simp
qed

lemma listMessagesWithPartsPage_entries:
  assumes ok: "messages_ok s"
  shows "listMessagesWithPartsPage input s = map (\<lambda>m. entry_of m s) (page_rows input s)"
proof -
  from ok have dm: "distinct (map msg_id (messages s))"
    and inf: "\<forall>m\<in>set (messages s). js_prop (info_of (msg_data m)) ''id'' = Some (JStr (msg_id m))"
    by (simp_all add: messages_ok_def list_all_iff)
  have "listMessagesWithPartsPage input s =
      groupRows (map select_row (concat (map (\<lambda>m. join_block m (order_by part_id_asc (parts_of m s)))
           (page_rows input s))))"
    by (simp only: listMessagesWithPartsPage_eq listMessagesPage_rows
        select_messages_with_parts_blocks join_sorted_eq[OF ok])
  also have "\<dots> = [] @ map (\<lambda>m. \<lparr>mwp_info = info_of (msg_data m),
        mwp_parts = map part_data (order_by part_id_asc (parts_of m s))\<rparr>) (page_rows input s)"
    unfolding groupRows_def
    by (rule group_blocks) (use page_rows_props(1,2)[OF dm, of input] inf in auto)
  finally show ?thesis by (simp add: entry_of_def)
qed

lemma filter_unique:
  assumes "distinct (map f xs)" "x \<in> set xs" "P x"
  shows "filter (\<lambda>y. P y \<and> f y = f x) xs = [x]"
  using assms
proof (induction xs)
  case Nil
  then show ?case by simp
next
  case (Cons a xs)
  show ?case
  proof (cases "a = x")
    case True
    with Cons.prems(1) have "f x \<notin> f ` set xs" by simp
    then have "\<forall>y\<in>set xs. f y \<noteq> f x" by (metis imageI)
    then have "filter (\<lambda>y. P y \<and> f y = f x) xs = []" by (simp add: filter_empty_conv)
    with True Cons.prems show ?thesis by simp
  next
    case False
    with Cons.prems have x: "x \<in> set xs" by simp
    with Cons.prems(1) have "f a \<noteq> f x" by (metis distinct.simps(2) imageI list.simps(9) list.set_map)
    from this x Cons show ?thesis by simp
  qed
qed

lemma message_with_parts_entry:
  assumes "distinct (map msg_id (messages s))" "m \<in> set (messages s)" "msg_sessionID m = sid"
  shows "message_with_parts sid (msg_id m) s = Some (entry_of m s)"
proof -
  have "filter (\<lambda>r. msg_sessionID r = sid \<and> msg_id r = msg_id m) (messages s) = [m]"
    by (rule filter_unique) (use assms in auto)
  then have "readMessage sid (msg_id m) s = Some (msg_data m)"
    by (simp add: readMessage_def)
  moreover have "readParts sid (msg_id m) s = map part_data (order_by part_id_asc (parts_of m s))"
    using assms(3) by (simp add: readParts_def parts_of_def part_id_asc_eq)
  ultimately show ?thesis by (simp add: message_with_parts_def entry_of_def)
qed

lemma distinct_insert_or_replace:
  "distinct (map key t) \<Longrightarrow> distinct (map key (insert_or_replace key r t))"
  by (auto simp: insert_or_replace_def distinct_map_filter)

lemma messages_ok_cong:
  "messages s' = messages s \<Longrightarrow> message_parts s' = message_parts s \<Longrightarrow>
     messages_ok s' = messages_ok s"
  by (simp add: messages_ok_def)

lemma messages_ok_writeMessage:
  assumes "messages_ok s" "is_MessageRecord m"
  shows "messages_ok (writeMessage m s)"
proof -
  from assms(2) obtain ivs where info: "js_prop m ''info'' = Some (JObj ivs)"
    and "is_string (map_of ivs ''id'')"
    unfolding is_MessageRecord_def by (cases "js_prop m ''info''" rule: is_object.cases) auto
  then obtain i where i: "map_of ivs ''id'' = Some (JStr i)"
    by (cases "map_of ivs ''id''" rule: is_string.cases) auto
  define r where "r = \<lparr>msg_id = str_prop (JObj ivs) ''id'',
      msg_sessionID = str_prop (JObj ivs) ''sessionID'',
      msg_created_at = number_or_null (opt_prop (js_prop (JObj ivs) ''time'') ''created''),
      msg_data = JObj [(''info'', JObj ivs)]\<rparr>"
  have w: "messages (writeMessage m s) = insert_or_replace msg_id r (messages s)"
    "message_parts (writeMessage m s) = message_parts s"
    using info by (simp_all add: writeMessage_def r_def)
  have "js_prop (info_of (msg_data r)) ''id'' = Some (JStr (msg_id r))"
    using i by (simp add: r_def info_of_def str_prop_def)
  moreover have "distinct (map msg_id (insert_or_replace msg_id r (messages s)))"
    using assms(1) by (simp add: messages_ok_def distinct_insert_or_replace)
  ultimately show ?thesis
    using assms(1) by (auto simp: messages_ok_def w list_all_iff insert_or_replace_def)
qed

lemma messages_ok_insert_part:
  "messages_ok s \<Longrightarrow> messages_ok (insert_part sid mid p s)"
  by (simp add: messages_ok_def insert_part_def distinct_insert_or_replace)

lemma messages_ok_insert_parts:
  "messages_ok s \<Longrightarrow> messages_ok (run_all (map (insert_part sid mid) ps) s)"
  by (induction ps arbitrary: s) (simp_all add: run_all_Nil run_all_Cons messages_ok_insert_part)

lemma messages_ok_delete_part:
  "messages_ok s \<Longrightarrow> messages_ok (delete_part sid mid i s)"
  by (simp add: messages_ok_def delete_part_def distinct_map_filter)

lemma messages_ok_delete_parts:
  "messages_ok s \<Longrightarrow> messages_ok (run_all (map (delete_part sid mid) ids) s)"
  by (induction ids arbitrary: s) (simp_all add: run_all_Nil run_all_Cons messages_ok_delete_part)

lemma messages_fold_writeSessionIndex:
  "messages (fold (\<lambda>session st. writeSessionIndex session st) ps s) = messages s \<and>
   message_parts (fold (\<lambda>session st. writeSessionIndex session st) ps s) = message_parts s"
  by (induction ps arbitrary: s)
     (simp_all add: writeSessionIndex_def writeSessionIndexWithDb_def split: option.splits)

lemma messages_ensureSessionIndex:
  "messages (ensureSessionIndex s) = messages s \<and>
   message_parts (ensureSessionIndex s) = message_parts s"
  by (simp add: ensureSessionIndex_def Let_def metaSet_def messages_fold_writeSessionIndex)

lemma messages_ok_apply_op:
  assumes "messages_ok s" "op_typed opr"
  shows "messages_ok (apply_op opr s)"
proof (cases opr)
  case (MetaSet k v)
  have "messages_ok (metaSet k v s) = messages_ok s"
    by (rule messages_ok_cong) (simp_all add: metaSet_def)
  with assms MetaSet show ?thesis by simp
next
  case (WriteSession p)
  have "messages_ok (writeSession p s) = messages_ok s"
    by (rule messages_ok_cong)
       (simp_all add: writeSession_def writeSession_stmts_def run_all_def insert_session_def
          writeSessionIndexWithDb_def split: option.splits)
  with assms WriteSession show ?thesis by simp
next
  case (RemoveSession i)
  have "messages_ok (removeSession i s) = messages_ok s"
    by (rule messages_ok_cong)
       (simp_all add: removeSession_def removeSession_stmts_def run_all_def delete_session_def
          delete_session_index_def)
  with assms RemoveSession show ?thesis by simp
next
  case EnsureSessionIndex
  have "messages_ok (ensureSessionIndex s) = messages_ok s"
    by (rule messages_ok_cong) (simp_all add: messages_ensureSessionIndex)
  with assms EnsureSessionIndex show ?thesis by simp
next
  case (ReadSessionIndexRow i)
  have "messages_ok (ensureSessionIndex s) = messages_ok s"
    by (rule messages_ok_cong) (simp_all add: messages_ensureSessionIndex)
  with assms ReadSessionIndexRow show ?thesis by (simp add: snd_readSessionIndexRow)
next
  case (ListSessionIndex q)
  have "messages_ok (ensureSessionIndex s) = messages_ok s"
    by (rule messages_ok_cong) (simp_all add: messages_ensureSessionIndex)
  with assms ListSessionIndex show ?thesis by (simp add: snd_listSessionIndex)
next
  case (ListSessionIndexChildren i)
  have "messages_ok (ensureSessionIndex s) = messages_ok s"
    by (rule messages_ok_cong) (simp_all add: messages_ensureSessionIndex)
  with assms ListSessionIndexChildren show ?thesis
    by (simp add: snd_listSessionIndexChildren)
next
  case (WriteMessage m)
  with assms show ?thesis by (simp add: messages_ok_writeMessage)
next
  case (WriteParts sid mid ps)
  with assms show ?thesis
    by (simp add: writeParts_def writeParts_stmts_def messages_ok_insert_parts)
next
  case (RemoveParts sid mid ids)
  with assms show ?thesis
    by (simp add: removeParts_def removeParts_stmts_def messages_ok_delete_parts)
next
  case (RemoveMessageParts sid mid)
  with assms show ?thesis
    by (simp add: messages_ok_def removeMessageParts_def distinct_map_filter)
next
  case (RemoveMessage sid mid)
  with assms show ?thesis
    by (simp add: messages_ok_def removeMessage_def removeMessage_stmts_def run_all_def
        delete_message_def removeMessageParts_def distinct_map_filter list_all_iff)
next
  case (RemoveMessages sid)
  with assms show ?thesis
    by (simp add: messages_ok_def removeMessages_def removeMessages_stmts_def run_all_def
        delete_session_messages_def delete_session_parts_def distinct_map_filter list_all_iff)
next
  case (WriteDiff sid v)
  have "messages_ok (writeDiff sid v s) = messages_ok s"
    by (rule messages_ok_cong) (simp_all add: writeDiff_def)
  with assms WriteDiff show ?thesis by simp
next
  case (RemoveDiff sid)
  have "messages_ok (removeDiff sid s) = messages_ok s"
    by (rule messages_ok_cong) (simp_all add: removeDiff_def)
  with assms RemoveDiff show ?thesis by simp
qed

lemma messages_ok_ops:
  "messages_ok s \<Longrightarrow> list_all op_typed ops \<Longrightarrow> messages_ok (fold apply_op ops s)"
  by (induction ops arbitrary: s) (simp_all add: messages_ok_apply_op)

lemma messages_ok_empty: "messages_ok empty_store"
  by (simp add: messages_ok_def empty_store_def)

lemma messages_ok_two: "messages_ok two_messages_store"
  unfolding two_messages_store_def
  by (rule messages_ok_ops[OF messages_ok_empty])
     (simp add: message_record_def is_MessageRecord_def is_PartRecord_def)

lemma two_messages_tables:
  "messages two_messages_store =
     [\<lparr>msg_id = ''msg_0'', msg_sessionID = ''ses_1'', msg_created_at = Some 1700000000000,
       msg_data = JObj [(''info'', JObj [(''id'', JStr ''msg_0''), (''sessionID'', JStr ''ses_1''),
                            (''time'', JObj [(''created'', JNum 1700000000000)])])]\<rparr>,
      \<lparr>msg_id = ''msg_1'', msg_sessionID = ''ses_1'', msg_created_at = Some 1700000000000,
       msg_data = JObj [(''info'', JObj [(''id'', JStr ''msg_1''), (''sessionID'', JStr ''ses_1''),
                            (''time'', JObj [(''created'', JNum 1700000000000)])])]\<rparr>]"
  "message_parts two_messages_store =
     [part_row ''ses_1'' ''msg_1'' (JObj [(''id'', JStr ''prt_2'')]),
      part_row ''ses_1'' ''msg_1'' (JObj [(''id'', JStr ''prt_1'')])]"
  by (simp_all add: two_messages_store_def writeMessage_def message_record_def str_prop_def
      insert_or_replace_def empty_store_def writeParts_def writeParts_stmts_def run_all_def
      insert_part_def part_key_def part_row_def)

text \<open>
  C8. \<^verbatim>\<open>listMessagesWithPartsPage\<close> returns one entry for each id that
  \<^verbatim>\<open>listMessagesPage\<close> returns for the same input, in the same order (descending by
  message id, no id twice); the entry of an id holds the info of that message and the
  parts that \<^verbatim>\<open>readParts\<close> returns for it, in ascending order of part id, so a message
  with no part has one entry with the empty list. The store is any store that satisfies
  the primary keys of the schema and in which the payload of a message row carries the id
  of the row; typed operations keep these (\<open>messages_ok_ops\<close>).
\<close>

theorem listMessagesWithPartsPage_grouped:
  assumes "messages_ok s"
  shows "map Some (listMessagesWithPartsPage input s)
           = map (\<lambda>i. message_with_parts (ml_sessionID input) i s) (listMessagesPage input s) \<and>
         map (\<lambda>e. js_prop (mwp_info e) ''id'') (listMessagesWithPartsPage input s)
           = map (\<lambda>i. Some (JStr i)) (listMessagesPage input s) \<and>
         map mwp_parts (listMessagesWithPartsPage input s)
           = map (\<lambda>i. readParts (ml_sessionID input) i s) (listMessagesPage input s) \<and>
         distinct (listMessagesPage input s)"
proof -
  from assms have dm: "distinct (map msg_id (messages s))"
    and inf: "\<forall>m\<in>set (messages s). js_prop (info_of (msg_data m)) ''id'' = Some (JStr (msg_id m))"
    by (simp_all add: messages_ok_def list_all_iff)
  note pr = page_rows_props[OF dm, of input]
  have e: "\<forall>m\<in>set (page_rows input s).
      message_with_parts (ml_sessionID input) (msg_id m) s = Some (entry_of m s)"
    using pr(2,3) dm by (auto intro!: message_with_parts_entry)
  have 1: "map Some (listMessagesWithPartsPage input s)
           = map (\<lambda>i. message_with_parts (ml_sessionID input) i s) (listMessagesPage input s)"
    using e by (simp add: listMessagesWithPartsPage_entries[OF assms] listMessagesPage_rows)
  have 2: "map (\<lambda>e. js_prop (mwp_info e) ''id'') (listMessagesWithPartsPage input s)
           = map (\<lambda>i. Some (JStr i)) (listMessagesPage input s)"
    using inf pr(2)
    by (auto simp: listMessagesWithPartsPage_entries[OF assms] listMessagesPage_rows entry_of_def)
  have "\<forall>m\<in>set (page_rows input s).
      mwp_parts (entry_of m s) = readParts (ml_sessionID input) (msg_id m) s"
    using pr(3) by (auto simp: entry_of_def readParts_def parts_of_def part_id_asc_eq)
  then have 3: "map mwp_parts (listMessagesWithPartsPage input s)
           = map (\<lambda>i. readParts (ml_sessionID input) i s) (listMessagesPage input s)"
    by (simp add: listMessagesWithPartsPage_entries[OF assms] listMessagesPage_rows)
  have 4: "distinct (listMessagesPage input s)"
    using pr(1) by (simp add: listMessagesPage_rows)
  from 1 2 3 4 show ?thesis by blast
qed

theorem listMessagesWithPartsPage_grouped_witness:
  "messages_ok two_messages_store \<and>
   listMessagesPage \<lparr>ml_sessionID = ''ses_1'', ml_limit = None, ml_afterID = None\<rparr>
     two_messages_store = [''msg_1'', ''msg_0''] \<and>
   map (\<lambda>e. js_prop (mwp_info e) ''id'')
     (listMessagesWithPartsPage \<lparr>ml_sessionID = ''ses_1'', ml_limit = None, ml_afterID = None\<rparr>
        two_messages_store) = [Some (JStr ''msg_1''), Some (JStr ''msg_0'')] \<and>
   map mwp_parts
     (listMessagesWithPartsPage \<lparr>ml_sessionID = ''ses_1'', ml_limit = None, ml_afterID = None\<rparr>
        two_messages_store)
     = [[JObj [(''id'', JStr ''prt_1'')], JObj [(''id'', JStr ''prt_2'')]], []]"
proof -
  have p: "listMessagesPage \<lparr>ml_sessionID = ''ses_1'', ml_limit = None, ml_afterID = None\<rparr>
     two_messages_store = [''msg_1'', ''msg_0'']"
    by (simp add: listMessagesPage_window_aux window_page_def session_message_ids_desc_def
        two_messages_tables)
  have r: "readParts ''ses_1'' ''msg_1'' two_messages_store
             = [JObj [(''id'', JStr ''prt_1'')], JObj [(''id'', JStr ''prt_2'')]]"
      "readParts ''ses_1'' ''msg_0'' two_messages_store = []"
    by (simp_all add: readParts_def two_messages_tables part_row_def str_prop_def order_by_def)
  show ?thesis
    using listMessagesWithPartsPage_grouped[OF messages_ok_two,
        of "\<lparr>ml_sessionID = ''ses_1'', ml_limit = None, ml_afterID = None\<rparr>"]
    by (simp add: messages_ok_two p r)
qed

end
